theory Spec2Isabelle
  imports Main
begin

section \<open>Data model\<close>

text \<open>
  Modelled from the spec: the types \<^verbatim>\<open>VersionType\<close>, \<^verbatim>\<open>Release\<close>, \<^verbatim>\<open>CategoryOfChange\<close>,
  \<^verbatim>\<open>Changeset\<close> and \<^verbatim>\<open>PackageJSON\<close> are declared in the types package, which is not
  among the sources. The spec defines the severities major, minor, patch and none, and
  the serializer names these four buckets; a template literal prints a severity as that
  word. The records hold the fields that the sources read and write.
\<close>

datatype VersionType = Major | Minor | Patch | NoneBump

fun showVersionType :: "VersionType \<Rightarrow> string" where
  "showVersionType Major = ''major''"
| "showVersionType Minor = ''minor''"
| "showVersionType Patch = ''patch''"
| "showVersionType NoneBump = ''none''"

record PackageJSON =
  pkg_name :: string
  version :: string

record Package =
  packageJson :: PackageJSON

record Release =
  name :: string
  type :: VersionType

text \<open>
  The builder writes a category record as \<^verbatim>\<open>{ description, category }\<close>; the serializer
  also reads a \<^verbatim>\<open>type\<close> property from it. A property that is absent reads as
  \<^verbatim>\<open>undefined\<close>, here \<open>None\<close>.
\<close>

record CategoryOfChange =
  description :: string
  category :: string
  ctype :: "VersionType option"

record Changeset =
  summary :: string
  releases :: "Release list"
  categoryOfChangeList :: "CategoryOfChange list"

record ChangesetWithConfirmed = Changeset +
  confirmed :: bool

section \<open>Outcomes of an effectful call\<close>

text \<open>
  A call returns a value, throws, or never comes back because the prompt it waits at is
  never answered. The state at the moment of the return or of the throw comes with it.
\<close>

datatype exn = ExitError int | TypeError | Failure string

datatype ('a, 's) outcome = Done 'a 's | Throws exn 's | Pending

fun andThen :: "('a, 's) outcome \<Rightarrow> ('a \<Rightarrow> 's \<Rightarrow> ('b, 's) outcome) \<Rightarrow> ('b, 's) outcome" where
  "andThen (Done x s) f = f x s"
| "andThen (Throws e s) f = Throws e s"
| "andThen Pending f = Pending"

section \<open>The prompt layer\<close>

text \<open>
  The person at the terminal is the finite script of answers they give, one queue per
  kind of prompt. A prompt takes the next answer of its queue; when the queue is empty
  the program waits at that prompt for ever.
\<close>

record user =
  questions :: "string list"
  editors :: "string option list"
  confirms :: "bool list"
  picks :: "nat list"
  ticks :: "string list list"

text \<open>
  Modelled from the spec: the module \<^verbatim>\<open>cli-utilities\<close> is not among the sources. Its
  contracts are \<^verbatim>\<open>askQuestion(prompt) -> text\<close>,
  \<^verbatim>\<open>askQuestionWithEditor(seedText) -> text\<close> (may raise if no editor is available),
  \<^verbatim>\<open>askConfirm(prompt) -> boolean\<close>, \<^verbatim>\<open>askList(prompt, options) -> selectedOption\<close> and
  \<^verbatim>\<open>askCheckboxPlus(prompt, options, format) -> list of selected option keys\<close>.
  A checkbox answer is the keys the user ticks; the prompt returns the offered keys
  among them, in the order they are offered. A list answer is the position of the
  option picked; a position outside the menu cannot be submitted. The text of a prompt
  plays no part in the answer, and some texts are shortened here.
\<close>

definition askQuestion :: "string \<Rightarrow> user \<Rightarrow> (string, user) outcome" where
  "askQuestion prompt u =
     (case questions u of
        [] \<Rightarrow> Pending
      | a # rest \<Rightarrow> Done a (u\<lparr>questions := rest\<rparr>))"

definition askQuestionWithEditor :: "string \<Rightarrow> user \<Rightarrow> (string, user) outcome" where
  "askQuestionWithEditor seed u =
     (case editors u of
        [] \<Rightarrow> Pending
      | None # rest \<Rightarrow> Throws (Failure ''editor'') (u\<lparr>editors := rest\<rparr>)
      | Some a # rest \<Rightarrow> Done a (u\<lparr>editors := rest\<rparr>))"

definition askConfirm :: "string \<Rightarrow> user \<Rightarrow> (bool, user) outcome" where
  "askConfirm prompt u =
     (case confirms u of
        [] \<Rightarrow> Pending
      | b # rest \<Rightarrow> Done b (u\<lparr>confirms := rest\<rparr>))"

definition askList :: "string \<Rightarrow> 'a list \<Rightarrow> user \<Rightarrow> ('a, user) outcome" where
  "askList prompt options u =
     (case picks u of
        [] \<Rightarrow> Pending
      | i # rest \<Rightarrow>
          if i < length options then Done (options ! i) (u\<lparr>picks := rest\<rparr>) else Pending)"

definition askCheckboxPlus :: "string \<Rightarrow> string list \<Rightarrow> user \<Rightarrow> (string list, user) outcome" where
  "askCheckboxPlus prompt keys u =
     (case ticks u of
        [] \<Rightarrow> Pending
      | t # rest \<Rightarrow> Done (filter (\<lambda>k. k \<in> set t) keys) (u\<lparr>ticks := rest\<rparr>))"

text \<open>
  A grouped menu is a list of groups, each a name and its choices; a choice is its key
  and the message shown for it. The keys of a grouped menu are each group's name
  followed by the keys of its choices.
\<close>

type_synonym choice = "string \<times> string"

definition groupKeys :: "(string \<times> choice list) list \<Rightarrow> string list" where
  "groupKeys groups = concat (map (\<lambda>(g, choices). g # map fst choices) groups)"

section \<open>The builder: \<^verbatim>\<open>createChangeset.ts\<close>\<close>

definition allCategoriesOfChange :: "string list" where
  "allCategoriesOfChange =
     [''Added (New functionality, arg options, more UI elements)'',
      ''Changed (Visual changes, internal changes, API changes)'',
      ''Removed (Dead code, feature flags, consumer API'' @ [CHR 0x27] @ ''s)'',
      ''Types (Strictly related to the type system and should not have impact on runtime code) '',
      ''Documentation (README, general docs, package.json metadata)'',
      ''Infra (Tooling, performance, things that are under the hood but should have no impact if a consumer upgraded)'',
      ''Misc (Anything else not noted above)'']"

text \<open>\<^verbatim>\<open>kind.split(" ")[0]\<close>: the text before the first space.\<close>

definition getKindTitle :: "string \<Rightarrow> string" where
  "getKindTitle kind = takeWhile (\<lambda>c. c \<noteq> CHR '' '') kind"

text \<open>
  \<^verbatim>\<open>semver.lt\<close> belongs to an external library and is a parameter \<open>lt\<close> of the model:
  the comparison of two version strings, which throws a TypeError when one of them is no
  version it can read (\<open>None\<close> here). A package that is \<^verbatim>\<open>undefined\<close> (a name the map
  of packages does not hold) makes \<^verbatim>\<open>pkgJSON.version\<close> throw a TypeError as well.
\<close>

definition confirmMajorRelease ::
  "(string \<Rightarrow> string \<Rightarrow> bool option) \<Rightarrow> PackageJSON option \<Rightarrow> user \<Rightarrow> (bool, user) outcome" where
  "confirmMajorRelease lt pkgJSON u =
     (case pkgJSON of
        None \<Rightarrow> Throws TypeError u
      | Some pj \<Rightarrow>
          (case lt (version pj) ''1.0.0'' of
             None \<Rightarrow> Throws TypeError u
           | Some below \<Rightarrow>
               if below
               then askConfirm (''Are you sure you want to release the first major version of ''
                                  @ pkg_name pj @ ''?'') u
               else Done True u))"

text \<open>
  The loop \<^verbatim>\<open>while (summary.length === 0) summary = await cli.askQuestion(...)\<close> of
  \<^verbatim>\<open>setSummary\<close>: each turn takes one answer of the script.
\<close>

function summaryLoop :: "string \<Rightarrow> user \<Rightarrow> (string, user) outcome" where
  "summaryLoop s u =
     (if length s = 0
      then (case askQuestion ''# A summary is required for the changelog!'' u of
              Done a u' \<Rightarrow> summaryLoop a u'
            | Throws e u' \<Rightarrow> Throws e u'
            | Pending \<Rightarrow> Pending)
      else Done s u)"
  by pat_completeness auto
termination
  by (relation "measure (\<lambda>(s, u). length (questions u))")
     (auto simp: askQuestion_def split: list.splits)

text \<open>
  What \<^verbatim>\<open>setSummary\<close> does once the editor gave nothing or threw: ask again with an
  empty prompt, insist while the answer is empty, and store the answer unconfirmed.
\<close>

definition summaryFallback ::
  "ChangesetWithConfirmed \<Rightarrow> user \<Rightarrow> (ChangesetWithConfirmed, user) outcome" where
  "summaryFallback changeSet u =
     andThen (askQuestion [] u) (\<lambda>s u1.
     andThen (summaryLoop s u1) (\<lambda>s' u2.
       Done (changeSet\<lparr>summary := s', confirmed := False\<rparr>) u2))"

text \<open>
  \<^verbatim>\<open>setSummary\<close> mutates the changeset it is given; the model returns the changeset as
  it is afterwards. The \<^verbatim>\<open>catch\<close> clause takes any exception of the editor.
\<close>

definition setSummary ::
  "ChangesetWithConfirmed \<Rightarrow> user \<Rightarrow> (ChangesetWithConfirmed, user) outcome" where
  "setSummary changeSet u =
     andThen (askQuestion ''Summary'' u) (\<lambda>s u1.
       if length s = 0
       then (case askQuestionWithEditor ''# Please enter a summary for your changes.'' u1 of
               Done t u2 \<Rightarrow>
                 if length t > 0
                 then Done (changeSet\<lparr>summary := t, confirmed := True\<rparr>) u2
                 else summaryFallback changeSet u2
             | Throws e u2 \<Rightarrow> summaryFallback changeSet u2
             | Pending \<Rightarrow> Pending)
       else Done (changeSet\<lparr>summary := s, confirmed := False\<rparr>) u1)"

text \<open>
  \<^verbatim>\<open>chooseAtLeastOne\<close>, with the one callback it is ever given: the initial question
  over the menu \<open>defaultChoiceList\<close>.
\<close>

definition askInitialReleaseQuestion ::
  "(string \<times> choice list) list \<Rightarrow> user \<Rightarrow> (string list, user) outcome" where
  "askInitialReleaseQuestion defaultChoiceList u =
     askCheckboxPlus ''Which packages would you like to include?'' (groupKeys defaultChoiceList) u"

function retryWhileEmpty ::
  "(string \<times> choice list) list \<Rightarrow> string list \<Rightarrow> user \<Rightarrow> (string list, user) outcome" where
  "retryWhileEmpty defaultChoiceList selectedItems u =
     (if length selectedItems = 0
      then (case askInitialReleaseQuestion defaultChoiceList u of
              Done again u' \<Rightarrow> retryWhileEmpty defaultChoiceList again u'
            | Throws e u' \<Rightarrow> Throws e u'
            | Pending \<Rightarrow> Pending)
      else Done selectedItems u)"
  by pat_completeness auto
termination
  by (relation "measure (\<lambda>(m, s, u). length (ticks u))")
     (auto simp: askInitialReleaseQuestion_def askCheckboxPlus_def split: list.splits)

definition chooseAtLeastOne ::
  "(string \<times> choice list) list \<Rightarrow> user \<Rightarrow> (string list, user) outcome" where
  "chooseAtLeastOne defaultChoiceList u =
     andThen (askInitialReleaseQuestion defaultChoiceList u) (\<lambda>selectedItems u'.
       retryWhileEmpty defaultChoiceList selectedItems u')"

text \<open>
  A plain string offered as a choice is its own key and message. With no package at all,
  \<^verbatim>\<open>allPackages[0].packageJson\<close> throws a TypeError.
\<close>

definition getPackagesToRelease ::
  "string list \<Rightarrow> Package list \<Rightarrow> user \<Rightarrow> (string list, user) outcome" where
  "getPackagesToRelease changedPackages allPackages u =
     (if length allPackages > 1
      then
        (let unchangedPackagesNames =
               filter (\<lambda>n. n \<notin> set changedPackages)
                 (map (\<lambda>p. pkg_name (packageJson p)) allPackages);
             defaultChoiceList =
               filter (\<lambda>(g, choices). length choices \<noteq> 0)
                 [(''changed packages'', map (\<lambda>n. (n, n)) changedPackages),
                  (''unchanged packages'', map (\<lambda>n. (n, n)) unchangedPackagesNames)]
         in andThen (chooseAtLeastOne defaultChoiceList u) (\<lambda>packagesToRelease u'.
              Done (filter (\<lambda>pkgName. pkgName \<noteq> ''changed packages''
                                      \<and> pkgName \<noteq> ''unchanged packages'')
                      packagesToRelease) u'))
      else (case allPackages of
              [] \<Rightarrow> Throws TypeError u
            | p # rest \<Rightarrow> Done [pkg_name (packageJson p)] u))"

definition formatPkgNameAndVersion :: "string \<Rightarrow> string \<Rightarrow> string" where
  "formatPkgNameAndVersion pkgName v = pkgName @ ''@'' @ v"

text \<open>
  \<^verbatim>\<open>new Map(allPackages.map(...))\<close>: for a name that occurs twice the later package
  wins. \<^verbatim>\<open>new Set(xs)\<close> keeps the first occurrence of each element, in insertion
  order; \<^verbatim>\<open>delete\<close> removes an element.
\<close>

definition pkgJsonsByName :: "Package list \<Rightarrow> (string \<rightharpoonup> PackageJSON)" where
  "pkgJsonsByName allPackages =
     map_of (rev (map (\<lambda>p. (pkg_name (packageJson p), packageJson p)) allPackages))"

definition newSet :: "'a list \<Rightarrow> 'a list" where
  "newSet xs = fold (\<lambda>x s. if x \<in> set s then s else s @ [x]) xs []"

text \<open>
  The choices of a bump menu: each package with the message
  \<^verbatim>\<open>formatPkgNameAndVersion(pkgName, pkgJsonsByName.get(pkgName)!.version)\<close>, which throws
  a TypeError for a name the map does not hold (\<open>None\<close> here).
\<close>

definition pkgChoices :: "(string \<rightharpoonup> PackageJSON) \<Rightarrow> string list \<Rightarrow> choice list option" where
  "pkgChoices byName names =
     those (map (\<lambda>pkgName.
               map_option (\<lambda>pj. (pkgName, formatPkgNameAndVersion pkgName (version pj)))
                 (byName pkgName)) names)"

text \<open>Lines 202 to 231: the major menu and the filter on its answer.\<close>

definition askMajor ::
  "(string \<rightharpoonup> PackageJSON) \<Rightarrow> string list \<Rightarrow> user \<Rightarrow> (string list, user) outcome" where
  "askMajor byName packagesToRelease u =
     (case pkgChoices byName packagesToRelease of
        None \<Rightarrow> Throws TypeError u
      | Some choices \<Rightarrow>
          andThen (askCheckboxPlus ''Which packages should have a major bump?''
                     (groupKeys [(''all packages'', choices)]) u) (\<lambda>answer u'.
            Done (filter (\<lambda>x. x \<noteq> ''all packages'') answer) u'))"

text \<open>
  Lines 233 to 245: the loop over the packages ticked for a major bump. The pair is
  \<^verbatim>\<open>pkgsLeftToGetBumpTypeFor\<close> and \<^verbatim>\<open>releases\<close>.
\<close>

fun majorLoop ::
  "(string \<Rightarrow> string \<Rightarrow> bool option) \<Rightarrow> (string \<rightharpoonup> PackageJSON) \<Rightarrow> string list \<Rightarrow>
   string list \<times> Release list \<Rightarrow> user \<Rightarrow> (string list \<times> Release list, user) outcome" where
  "majorLoop lt byName [] st u = Done st u"
| "majorLoop lt byName (pkgName # rest) (left, rels) u =
     andThen (confirmMajorRelease lt (byName pkgName) u) (\<lambda>shouldReleaseFirstMajor u'.
       if shouldReleaseFirstMajor
       then majorLoop lt byName rest
              (removeAll pkgName left, rels @ [\<lparr>name = pkgName, type = Major\<rparr>]) u'
       else majorLoop lt byName rest (left, rels) u')"

text \<open>Lines 279 to 283: the loop over the packages ticked for a minor bump.\<close>

fun minorLoop :: "string list \<Rightarrow> string list \<times> Release list \<Rightarrow> string list \<times> Release list" where
  "minorLoop [] st = st"
| "minorLoop (pkgName # rest) (left, rels) =
     minorLoop rest (removeAll pkgName left, rels @ [\<lparr>name = pkgName, type = Minor\<rparr>])"

text \<open>
  Lines 248 to 277: the minor menu over the packages still left, and the filter on its
  answer.
\<close>

definition askMinor ::
  "(string \<rightharpoonup> PackageJSON) \<Rightarrow> string list \<Rightarrow> user \<Rightarrow> (string list, user) outcome" where
  "askMinor byName left u =
     (case pkgChoices byName left of
        None \<Rightarrow> Throws TypeError u
      | Some choices \<Rightarrow>
          andThen (askCheckboxPlus ''Which packages should have a minor bump?''
                     (groupKeys [(''all packages'', choices)]) u) (\<lambda>answer u'.
            Done (filter (\<lambda>x. x \<noteq> ''all packages'') answer) u'))"

text \<open>Lines 247 to 284: the minor round, asked only while packages are left.\<close>

definition minorRound ::
  "(string \<rightharpoonup> PackageJSON) \<Rightarrow> string list \<times> Release list \<Rightarrow> user \<Rightarrow>
   (string list \<times> Release list, user) outcome" where
  "minorRound byName st u =
     (if length (fst st) \<noteq> 0
      then andThen (askMinor byName (fst st) u) (\<lambda>pkgsThatShouldBeMinorBumped u'.
             Done (minorLoop pkgsThatShouldBeMinorBumped st) u')
      else Done st u)"

text \<open>
  Lines 286 to 297: the packages still left are reported (the report reads each one's
  version) and patch bumped.
\<close>

definition patchRound ::
  "(string \<rightharpoonup> PackageJSON) \<Rightarrow> string list \<times> Release list \<Rightarrow> user \<Rightarrow>
   (Release list, user) outcome" where
  "patchRound byName st u =
     (if length (fst st) \<noteq> 0
      then (case pkgChoices byName (fst st) of
              None \<Rightarrow> Throws TypeError u
            | Some shown \<Rightarrow>
                Done (snd st @ map (\<lambda>pkgName. \<lparr>name = pkgName, type = Patch\<rparr>) (fst st)) u)
      else Done (snd st) u)"

text \<open>Lines 184 and 202 to 297: the successive elimination major, minor, patch.\<close>

definition resolveReleases ::
  "(string \<Rightarrow> string \<Rightarrow> bool option) \<Rightarrow> (string \<rightharpoonup> PackageJSON) \<Rightarrow> string list \<Rightarrow> user \<Rightarrow>
   (Release list, user) outcome" where
  "resolveReleases lt byName packagesToRelease u =
     andThen (askMajor byName packagesToRelease u) (\<lambda>pkgsThatShouldBeMajorBumped u1.
     andThen (majorLoop lt byName pkgsThatShouldBeMajorBumped (newSet packagesToRelease, []) u1)
       (\<lambda>st u2.
     andThen (minorRound byName st u2) (\<lambda>st' u3.
       patchRound byName st' u3)))"

text \<open>
  Lines 313 to 318 and 325 to 330: one question per chosen category, each answer pushed
  as \<^verbatim>\<open>{ description, category }\<close> onto the list \<open>acc\<close>.
\<close>

fun askDescriptions ::
  "string list \<Rightarrow> CategoryOfChange list \<Rightarrow> user \<Rightarrow> (CategoryOfChange list, user) outcome" where
  "askDescriptions [] acc u = Done acc u"
| "askDescriptions (cat # rest) acc u =
     andThen (askQuestion (''[ '' @ getKindTitle cat @ '' ]'') u) (\<lambda>d u'.
       askDescriptions rest (acc @ [\<lparr>description = d, category = cat, ctype = None\<rparr>]) u')"

text \<open>Lines 305 to 319: the same message for all packages of a bump type.\<close>

fun sameMessageLoop ::
  "VersionType list \<Rightarrow> string list \<Rightarrow> CategoryOfChange list \<Rightarrow> user \<Rightarrow>
   (CategoryOfChange list, user) outcome" where
  "sameMessageLoop [] chosen acc u = Done acc u"
| "sameMessageLoop (bumpType # rest) chosen acc u =
     andThen (askDescriptions chosen acc u) (\<lambda>acc' u'. sameMessageLoop rest chosen acc' u')"

text \<open>Lines 321 to 337: a message and a changeset of its own for each release.\<close>

fun perReleaseLoop ::
  "Release list \<Rightarrow> string list \<Rightarrow> ChangesetWithConfirmed list \<Rightarrow> user \<Rightarrow>
   (ChangesetWithConfirmed list, user) outcome" where
  "perReleaseLoop [] chosen changesetList u = Done changesetList u"
| "perReleaseLoop (release # rest) chosen changesetList u =
     andThen (askDescriptions chosen [] u) (\<lambda>currChangesetCategoryOfChangeList u'.
       perReleaseLoop rest chosen
         (changesetList @
            [\<lparr>summary = [], releases = [release],
              categoryOfChangeList = currChangesetCategoryOfChangeList,
              confirmed = True\<rparr>]) u')"

text \<open>Lines 365 to 367: \<^verbatim>\<open>setSummary\<close> on every changeset of the list, in order.\<close>

fun setSummaries ::
  "ChangesetWithConfirmed list \<Rightarrow> user \<Rightarrow> (ChangesetWithConfirmed list, user) outcome" where
  "setSummaries [] u = Done [] u"
| "setSummaries (c # cs) u =
     andThen (setSummary c u) (\<lambda>c' u'.
     andThen (setSummaries cs u') (\<lambda>cs' u''. Done (c' # cs') u''))"

text \<open>Lines 356 to 369, the end that both paths share.\<close>

definition finish ::
  "bool \<Rightarrow> Release list \<Rightarrow> ChangesetWithConfirmed list \<Rightarrow> user \<Rightarrow>
   (ChangesetWithConfirmed list, user) outcome" where
  "finish shouldAskChangeTypes rels changesetList u =
     setSummaries
       (if \<not> shouldAskChangeTypes
        then changesetList @
               [\<lparr>summary = [], releases = rels, categoryOfChangeList = [], confirmed = False\<rparr>]
        else changesetList) u"

definition whatKindQuestion :: string where
  "whatKindQuestion = ''What kind of change are you making? (check all that apply)''"

definition reuseQuestion :: string where
  "reuseQuestion = ''Would you like to reuse the same message for all packages of this bump type?''"

text \<open>Lines 174 to 339: more than one package.\<close>

definition multiPackage ::
  "(string \<Rightarrow> string \<Rightarrow> bool option) \<Rightarrow> string list \<Rightarrow> Package list \<Rightarrow> user \<Rightarrow>
   (ChangesetWithConfirmed list, user) outcome" where
  "multiPackage lt changedPackages allPackages u =
     andThen (getPackagesToRelease changedPackages allPackages u) (\<lambda>packagesToRelease u1.
     andThen (askCheckboxPlus whatKindQuestion
                allCategoriesOfChange u1) (\<lambda>chosenCategoryOfChangeList u2.
     andThen (resolveReleases lt (pkgJsonsByName allPackages) packagesToRelease u2) (\<lambda>rels u3.
       if length chosenCategoryOfChangeList > 0
       then
         andThen (askConfirm reuseQuestion u3) (\<lambda>isSameMessageForAllPkgs u4.
           if isSameMessageForAllPkgs
           then andThen (sameMessageLoop (newSet (map type rels)) chosenCategoryOfChangeList [] u4)
                  (\<lambda>categoryOfChangeList u5. finish True rels [] u5)
           else andThen (perReleaseLoop rels chosenCategoryOfChangeList [] u4)
                  (\<lambda>changesetList u5. finish True rels changesetList u5))
       else finish False rels [] u3)))"

text \<open>Lines 340 to 355: the only package.\<close>

definition singlePackage ::
  "(string \<Rightarrow> string \<Rightarrow> bool option) \<Rightarrow> Package list \<Rightarrow> user \<Rightarrow>
   (ChangesetWithConfirmed list, user) outcome" where
  "singlePackage lt allPackages u =
     (case allPackages of
        [] \<Rightarrow> Throws TypeError u
      | pkg # others \<Rightarrow>
          andThen (askList (''What kind of change is this for '' @ pkg_name (packageJson pkg) @ ''?'')
                     [Patch, Minor, Major] u) (\<lambda>ty u1.
          andThen (if ty = Major
                   then andThen (confirmMajorRelease lt (Some (packageJson pkg)) u1)
                          (\<lambda>shouldReleaseAsMajor u2.
                             if \<not> shouldReleaseAsMajor then Throws (ExitError 1) u2
                             else Done () u2)
                   else Done () u1) (\<lambda>nothing u3.
            finish False [\<lparr>name = pkg_name (packageJson pkg), type = ty\<rparr>] [] u3)))"

definition createChangeset ::
  "(string \<Rightarrow> string \<Rightarrow> bool option) \<Rightarrow> string list \<Rightarrow> Package list \<Rightarrow> user \<Rightarrow>
   (ChangesetWithConfirmed list, user) outcome" where
  "createChangeset lt changedPackages allPackages u =
     (if length allPackages > 1
      then multiPackage lt changedPackages allPackages u
      else singlePackage lt allPackages u)"

text \<open>
  The confirmations of the major loop, read off the same script: for each package the
  loop reaches, whether its release as a major was accepted. A package below 1.0.0 is
  accepted by the answer to its confirmation; any other package is accepted unasked.
\<close>

fun majorDecisions ::
  "(string \<Rightarrow> string \<Rightarrow> bool option) \<Rightarrow> (string \<rightharpoonup> PackageJSON) \<Rightarrow> string list \<Rightarrow> user \<Rightarrow>
   (string \<times> bool) list" where
  "majorDecisions lt byName [] u = []"
| "majorDecisions lt byName (pkgName # rest) u =
     (case confirmMajorRelease lt (byName pkgName) u of
        Done accepted u' \<Rightarrow> (pkgName, accepted) # majorDecisions lt byName rest u'
      | Throws e u' \<Rightarrow> []
      | Pending \<Rightarrow> [])"

text \<open>The packages that the releases give the bump type \<open>t\<close>.\<close>

definition bumped :: "VersionType \<Rightarrow> Release list \<Rightarrow> string set" where
  "bumped t rels = set (map name (filter (\<lambda>r. type r = t) rels))"

section \<open>The serializer\<close>

abbreviation newline :: char where
  "newline \<equiv> CHR 0x0A"

abbreviation dquote :: char where
  "dquote \<equiv> CHR 0x22"

text \<open>\<^verbatim>\<open>Array.prototype.join\<close>.\<close>

fun join :: "string \<Rightarrow> string list \<Rightarrow> string" where
  "join sep [] = []"
| "join sep [x] = x"
| "join sep (x # y # ys) = x @ sep @ join sep (y # ys)"

text \<open>
  \<^verbatim>\<open>groupByBumpType\<close>, the same in both versions of the serializer: the buckets major,
  minor, patch and none, filled in one pass over the releases.
\<close>

definition groupByBumpType ::
  "Release list \<Rightarrow> Release list \<times> Release list \<times> Release list \<times> Release list" where
  "groupByBumpType rels =
     fold (\<lambda>rel (major, minor, patch, none).
             if type rel = Major then (major @ [rel], minor, patch, none)
             else if type rel = Minor then (major, minor @ [rel], patch, none)
             else if type rel = Patch then (major, minor, patch @ [rel], none)
             else (major @ [rel], minor, patch, none))
       rels ([], [], [], [])"

text \<open>\<^verbatim>\<open>Object.entries\<close> of the object \<^verbatim>\<open>{ major, minor, patch, none }\<close>.\<close>

definition entries ::
  "Release list \<times> Release list \<times> Release list \<times> Release list \<Rightarrow>
   (VersionType \<times> Release list) list" where
  "entries g =
     (case g of (major, minor, patch, none) \<Rightarrow>
        [(Major, major), (Minor, minor), (Patch, patch), (NoneBump, none)])"

definition releaseLine :: "Release \<Rightarrow> string" where
  "releaseLine release = [dquote] @ name release @ [dquote] @ '': '' @ showVersionType (type release)"

definition categoryLine :: "CategoryOfChange \<Rightarrow> string" where
  "categoryLine chk = ''- [ '' @ getKindTitle (category chk) @ '' ] '' @ description chk"

subsection \<open>\<^verbatim>\<open>packages/write/src/index.ts\<close>\<close>

definition getReleasesSection :: "Release list \<Rightarrow> string" where
  "getReleasesSection rels =
     ''---'' @ [newline] @ join [newline] (map releaseLine rels) @ [newline] @ ''---'' @ [newline]"

definition getChangeTypesSection :: "CategoryOfChange list \<Rightarrow> VersionType option \<Rightarrow> string" where
  "getChangeTypesSection changeTypes bumpType =
     (let filtered = (case bumpType of
                        Some b \<Rightarrow> filter (\<lambda>c. ctype c = Some b) changeTypes
                      | None \<Rightarrow> changeTypes)
      in join [newline] (map categoryLine filtered) @ [newline])"

definition groupedEntries :: "Release list \<Rightarrow> (VersionType \<times> Release list) list" where
  "groupedEntries rels = filter (\<lambda>(bumpType, rs). length rs \<noteq> 0) (entries (groupByBumpType rels))"

definition getReleasesAndChangeTypes ::
  "Release list \<Rightarrow> CategoryOfChange list \<Rightarrow> bool \<Rightarrow> string" where
  "getReleasesAndChangeTypes rels cats splitReleasesByBumpType =
     (if splitReleasesByBumpType \<and> length cats \<noteq> 0
      then join [newline]
             (map (\<lambda>(bumpType, rs).
                     getReleasesSection rs @ [newline] @ getChangeTypesSection cats (Some bumpType))
                (groupedEntries rels))
      else if length cats \<noteq> 0
      then getReleasesSection rels @ '' '' @ [newline] @ ''  '' @ getChangeTypesSection cats None
      else getReleasesSection rels)"

text \<open>
  Line 90: \<^verbatim>\<open>writeChangeset\<close> calls with two arguments, so
  \<^verbatim>\<open>splitReleasesByBumpType\<close> has its default \<^verbatim>\<open>false\<close>.
\<close>

definition changesetContents :: "'a Changeset_scheme \<Rightarrow> string" where
  "changesetContents changeset =
     getReleasesAndChangeTypes (releases changeset) (categoryOfChangeList changeset) False
       @ [newline, newline] @ summary changeset @ [newline] @ ''  ''"

text \<open>
  The file system is the map from paths to the texts written there. The generated
  identifier \<open>changesetID\<close> and the two calls into the formatter (\<^verbatim>\<open>resolveConfig\<close> and
  \<^verbatim>\<open>format\<close>, each of which may throw) are parameters. The argument of
  \<^verbatim>\<open>fs.writeFile\<close> is evaluated before the call.
\<close>

definition writeChangeset ::
  "(string \<Rightarrow> exn + 'c) \<Rightarrow> (string \<Rightarrow> 'c \<Rightarrow> exn + string) \<Rightarrow> string \<Rightarrow>
   'a Changeset_scheme \<Rightarrow> string \<Rightarrow> (string \<rightharpoonup> string) \<Rightarrow> (string, string \<rightharpoonup> string) outcome" where
  "writeChangeset resolveConfig format changesetID changeset cwd files =
     (let changesetBase = cwd @ ''/.changeset'' in
      case resolveConfig cwd of
        Inl e \<Rightarrow> Throws e files
      | Inr prettierConfig \<Rightarrow>
          (let newChangesetPath = changesetBase @ ''/'' @ changesetID @ ''.md'' in
           case format (changesetContents changeset) prettierConfig of
             Inl e \<Rightarrow> Throws e files
           | Inr text \<Rightarrow> Done changesetID (files(newChangesetPath \<mapsto> text))))"

subsection \<open>The other version of the serializer (\<^verbatim>\<open>part_000\<close>)\<close>

definition getReleasesSection_p0 :: "Release list \<Rightarrow> string" where
  "getReleasesSection_p0 rels =
     ''---'' @ [newline] @ join [newline] (map releaseLine rels) @ [newline] @ ''---''"

definition getChangeTypesSection_p0 :: "CategoryOfChange list \<Rightarrow> VersionType \<Rightarrow> string" where
  "getChangeTypesSection_p0 changeTypes bumpType =
     join [newline] (map categoryLine (filter (\<lambda>c. ctype c = Some bumpType) changeTypes))"

definition releasesGroupedByBumpTypes_p0 :: "Release list \<Rightarrow> CategoryOfChange list \<Rightarrow> string" where
  "releasesGroupedByBumpTypes_p0 rels cats =
     join [newline]
       (map (\<lambda>(bumpType, rs).
               getReleasesSection_p0 rs @ '' '' @ [newline] @ getChangeTypesSection_p0 cats bumpType)
          (groupedEntries rels))"

definition changesetContents_p0 :: "'a Changeset_scheme \<Rightarrow> string" where
  "changesetContents_p0 changeset =
     (if length (categoryOfChangeList changeset) \<noteq> 0
      then releasesGroupedByBumpTypes_p0 (releases changeset) (categoryOfChangeList changeset)
      else getReleasesSection_p0 (releases changeset))
       @ [newline, newline] @ summary changeset @ [newline] @ ''  ''"

definition writeChangeset_p0 ::
  "(string \<Rightarrow> exn + 'c) \<Rightarrow> (string \<Rightarrow> 'c \<Rightarrow> exn + string) \<Rightarrow> string \<Rightarrow>
   'a Changeset_scheme \<Rightarrow> string \<Rightarrow> (string \<rightharpoonup> string) \<Rightarrow> (string, string \<rightharpoonup> string) outcome" where
  "writeChangeset_p0 resolveConfig format changesetID changeset cwd files =
     (let changesetBase = cwd @ ''/.changeset'' in
      case resolveConfig cwd of
        Inl e \<Rightarrow> Throws e files
      | Inr prettierConfig \<Rightarrow>
          (let newChangesetPath = changesetBase @ ''/'' @ changesetID @ ''.md'' in
           case format (changesetContents_p0 changeset) prettierConfig of
             Inl e \<Rightarrow> Throws e files
           | Inr text \<Rightarrow> Done changesetID (files(newChangesetPath \<mapsto> text))))"

section \<open>Reading a document's header back\<close>

text \<open>
  Modelled from the spec: the parser of the written file belongs to the downstream
  tooling and is not among the sources. The spec describes the file as an opening
  \<^verbatim>\<open>---\<close>-delimited block of quoted \<^verbatim>\<open>"pkg": bumptype\<close> lines and a closing \<^verbatim>\<open>---\<close>,
  and the header is read by splitting on the \<^verbatim>\<open>---\<close> delimiters and reading each quoted
  line. The model splits the document into lines, wants the first line to be \<^verbatim>\<open>---\<close>,
  takes the lines up to the next \<^verbatim>\<open>---\<close>, skips the empty ones and reads each other
  one as a double quote, the name up to the next double quote, a colon, a space and one
  of the four severity words. It answers \<open>None\<close> when the text has no such header.
\<close>

fun splitOn :: "char \<Rightarrow> string \<Rightarrow> string list" where
  "splitOn c [] = [[]]"
| "splitOn c (x # xs) =
     (if x = c then [] # splitOn c xs
      else (case splitOn c xs of
              [] \<Rightarrow> [[x]]
            | l # ls \<Rightarrow> (x # l) # ls))"

definition parseVersionType :: "string \<Rightarrow> VersionType option" where
  "parseVersionType w =
     (if w = ''major'' then Some Major
      else if w = ''minor'' then Some Minor
      else if w = ''patch'' then Some Patch
      else if w = ''none'' then Some NoneBump
      else None)"

definition parseReleaseLine :: "string \<Rightarrow> (string \<times> VersionType) option" where
  "parseReleaseLine line =
     (case line of
        [] \<Rightarrow> None
      | c # rest \<Rightarrow>
          if c \<noteq> dquote then None
          else (case dropWhile (\<lambda>x. x \<noteq> dquote) rest of
                  [] \<Rightarrow> None
                | q # after \<Rightarrow>
                    if take 2 after = '': ''
                    then map_option (\<lambda>t. (takeWhile (\<lambda>x. x \<noteq> dquote) rest, t))
                           (parseVersionType (drop 2 after))
                    else None))"

definition parseHeader :: "string \<Rightarrow> (string \<times> VersionType) list option" where
  "parseHeader doc =
     (case splitOn newline doc of
        [] \<Rightarrow> None
      | first # rest \<Rightarrow>
          if first = ''---'' \<and> ''---'' \<in> set rest
          then those (map parseReleaseLine
                        (filter (\<lambda>l. l \<noteq> []) (takeWhile (\<lambda>l. l \<noteq> ''---'') rest)))
          else None)"

section \<open>Sample sessions\<close>

text \<open>
  A comparison, a workspace of three packages, and a shorthand for a script of answers.
  They serve as concrete inputs. The comparison reads a version as three runs of digits
  between two dots and, against the bound \<^verbatim>\<open>1.0.0\<close>, answers whether the first run is
  \<^verbatim>\<open>0\<close>; on any other text it fails, as \<^verbatim>\<open>semver.lt\<close> throws on an invalid version.
\<close>

definition numeric :: "string \<Rightarrow> bool" where
  "numeric s = (s \<noteq> [] \<and> list_all (\<lambda>c. c \<in> set ''0123456789'') s)"

definition ltSample :: "string \<Rightarrow> string \<Rightarrow> bool option" where
  "ltSample v w =
     (case splitOn (CHR ''.'') v of
        [a, b, c] \<Rightarrow>
          if numeric a \<and> numeric b \<and> numeric c \<and> w = ''1.0.0'' then Some (a = ''0'') else None
      | other \<Rightarrow> None)"

definition workspaceSample :: "Package list" where
  "workspaceSample =
     [\<lparr>packageJson = \<lparr>pkg_name = ''a'', version = ''0.1.0''\<rparr>\<rparr>,
      \<lparr>packageJson = \<lparr>pkg_name = ''b'', version = ''1.2.0''\<rparr>\<rparr>,
      \<lparr>packageJson = \<lparr>pkg_name = ''c'', version = ''2.0.0''\<rparr>\<rparr>]"

definition answers ::
  "string list \<Rightarrow> string option list \<Rightarrow> bool list \<Rightarrow> nat list \<Rightarrow> string list list \<Rightarrow> user" where
  "answers q e c p t = \<lparr>questions = q, editors = e, confirms = c, picks = p, ticks = t\<rparr>"

definition added :: string where
  "added = ''Added (New functionality, arg options, more UI elements)''"

section \<open>Properties\<close>

subsection \<open>Calls that return, throw or wait\<close>

declare summaryLoop.simps [simp del]
declare retryWhileEmpty.simps [simp del]

lemma andThen_Done:
  "andThen m f = Done y s' \<Longrightarrow> \<exists>x s. m = Done x s \<and> f x s = Done y s'"
  by (cases m) auto

lemma andThen_Throws:
  "andThen m f = Throws e s' \<Longrightarrow> m = Throws e s' \<or> (\<exists>x s. m = Done x s \<and> f x s = Throws e s')"
  by (cases m) auto

lemma askQuestion_no_throw: "askQuestion p u \<noteq> Throws e u'"
  by (simp add: askQuestion_def split: list.splits)

lemma summaryLoop_no_throw: "summaryLoop s u \<noteq> Throws e u'"
proof (induction s u rule: summaryLoop.induct)
  case (1 s u)
  show ?case
  proof (cases "length s = 0")
    case True
    then show ?thesis
      using 1 by (subst summaryLoop.simps) (auto simp: askQuestion_no_throw split: outcome.splits)
  next
    case False
    then show ?thesis by (subst summaryLoop.simps) simp
  qed
qed

lemma summaryLoop_nonempty: "summaryLoop s u = Done s' u' \<Longrightarrow> s' \<noteq> []"
proof (induction s u rule: summaryLoop.induct)
  case (1 s u)
  show ?case
  proof (cases "length s = 0")
    case True
    with 1 show ?thesis
      by (subst (asm) (2) summaryLoop.simps) (auto split: outcome.splits)
  next
    case False
    with 1(2) show ?thesis by (subst (asm) summaryLoop.simps) auto
  qed
qed

lemma summaryFallback_no_throw: "summaryFallback c u \<noteq> Throws e u'"
  by (auto simp: summaryFallback_def askQuestion_no_throw summaryLoop_no_throw dest!: andThen_Throws)

lemma summaryFallback_Done:
  "summaryFallback c u = Done c' u' \<Longrightarrow>
     summary c' \<noteq> [] \<and> releases c' = releases c \<and> categoryOfChangeList c' = categoryOfChangeList c
     \<and> \<not> confirmed c'"
  by (auto simp: summaryFallback_def dest!: andThen_Done summaryLoop_nonempty)

lemma setSummary_no_throw: "setSummary c u \<noteq> Throws e u'"
  by (auto simp: setSummary_def askQuestion_no_throw summaryFallback_no_throw
      dest!: andThen_Throws split: if_splits outcome.splits)

lemma setSummary_Done:
  "setSummary c u = Done c' u' \<Longrightarrow>
     summary c' \<noteq> [] \<and> releases c' = releases c \<and> categoryOfChangeList c' = categoryOfChangeList c"
  by (auto simp: setSummary_def dest!: andThen_Done summaryFallback_Done split: if_splits outcome.splits)

lemma setSummaries_no_throw: "setSummaries cs u \<noteq> Throws e u'"
  by (induction cs arbitrary: u) (auto simp: setSummary_no_throw dest!: andThen_Throws)

lemma setSummaries_Done:
  "setSummaries cs u = Done cs' u' \<Longrightarrow>
     map releases cs' = map releases cs \<and> map categoryOfChangeList cs' = map categoryOfChangeList cs
     \<and> (\<forall>c \<in> set cs'. summary c \<noteq> [])"
proof (induction cs arbitrary: u cs')
  case Nil
  then show ?case by simp
next
  case (Cons c cs)
  from Cons.prems obtain c' u1 cs1 where
    a: "setSummary c u = Done c' u1" and b: "setSummaries cs u1 = Done cs1 u'" and c: "cs' = c' # cs1"
    by (auto dest!: andThen_Done)
  from Cons.IH[OF b] setSummary_Done[OF a] c show ?case by simp
qed

lemma finish_no_throw: "finish b rels cl u \<noteq> Throws e u'"
  by (simp add: finish_def setSummaries_no_throw)

subsection \<open>The single package path\<close>

lemma pick_three: "i < 3 \<Longrightarrow> [Patch, Minor, Major] ! i = Major \<longleftrightarrow> i = 2"
  by (auto simp: nth_Cons less_Suc_eq numeral_3_eq_3 numeral_2_eq_2 split: nat.splits)

lemma one_package_raises_iff:
  "(\<exists>u'. createChangeset lt changedPackages [pkg] u = Throws e u') \<longleftrightarrow>
     (\<exists>u1. askList q [Patch, Minor, Major] u = Done Major u1 \<and>
        (lt (version (packageJson pkg)) ''1.0.0'' = None \<and> e = TypeError
         \<or> lt (version (packageJson pkg)) ''1.0.0'' = Some True \<and> e = ExitError 1
           \<and> (\<exists>u2. askConfirm q' u1 = Done False u2)))"
proof (cases "picks u")
  case Nil
  then show ?thesis
    by (simp add: createChangeset_def singlePackage_def askList_def)
next
  case (Cons i rest)
  show ?thesis
  proof (cases "i < 3")
    case False
    with Cons show ?thesis
      by (simp add: createChangeset_def singlePackage_def askList_def)
  next
    case True
    show ?thesis
    proof (cases "i = 2")
      case False
      with True Cons show ?thesis
        by (auto simp: createChangeset_def singlePackage_def askList_def pick_three finish_no_throw)
    next
      case i2: True
      show ?thesis
      proof (cases "lt (version (packageJson pkg)) ''1.0.0''")
        case None
        with i2 Cons show ?thesis
          by (auto simp: createChangeset_def singlePackage_def askList_def confirmMajorRelease_def)
      next
        case (Some below)
        show ?thesis
        proof (cases below)
          case False
          with Some i2 Cons show ?thesis
            by (auto simp: createChangeset_def singlePackage_def askList_def confirmMajorRelease_def
                finish_no_throw)
        next
          case ltT: True
          show ?thesis
          proof (cases "confirms u")
            case Nil
            with ltT Some i2 Cons show ?thesis
              by (auto simp: createChangeset_def singlePackage_def askList_def confirmMajorRelease_def
                  askConfirm_def finish_no_throw)
          next
            case (Cons b bs)
            with ltT Some i2 \<open>picks u = i # rest\<close> show ?thesis
              by (cases b) (auto simp: createChangeset_def singlePackage_def askList_def
                  confirmMajorRelease_def askConfirm_def finish_no_throw)
          qed
        qed
      qed
    qed
  qed
qed

text \<open>
  Claim C4, amended. In the branch for at most one package, \<^verbatim>\<open>createChangeset\<close> throws
  \<^verbatim>\<open>ExitError(1)\<close> if and only if there is a package, the user picks major at the list
  prompt, the package's version is below 1.0.0 and the confirmation of the first major
  release is answered no. It throws nothing else but a TypeError, in two cases: the list
  of packages is empty, or the user picks major for a package whose version
  \<^verbatim>\<open>semver.lt\<close> cannot read. A call that throws returns no changeset, and the builder
  has no effect but its prompts, so nothing is written.
\<close>

theorem single_package_raises_iff:
  assumes "\<not> 1 < length allPackages"
  shows "(\<exists>u'. createChangeset lt changedPackages allPackages u = Throws e u') \<longleftrightarrow>
     (allPackages = [] \<and> e = TypeError
      \<or> (\<exists>pkg u1. allPackages = [pkg]
            \<and> askList q [Patch, Minor, Major] u = Done Major u1
            \<and> (lt (version (packageJson pkg)) ''1.0.0'' = None \<and> e = TypeError
               \<or> lt (version (packageJson pkg)) ''1.0.0'' = Some True \<and> e = ExitError 1
                 \<and> (\<exists>u2. askConfirm q' u1 = Done False u2))))"
proof (cases allPackages)
  case Nil
  then show ?thesis
    by (auto simp: createChangeset_def singlePackage_def)
next
  case (Cons pkg others)
  with assms have one: "allPackages = [pkg]"
    by simp
  show ?thesis
    unfolding one using one_package_raises_iff[of lt changedPackages pkg u e q q']
    by simp
qed

theorem single_package_raises_iff_witness:
  "\<exists>u'. createChangeset ltSample []
          [\<lparr>packageJson = \<lparr>pkg_name = ''foo'', version = ''0.5.0''\<rparr>\<rparr>]
          (answers [] [] [False] [2] [])
        = Throws (ExitError 1) u'"
proof -
  have n: "\<not> 1 < length [\<lparr>packageJson = \<lparr>pkg_name = ''foo'', version = ''0.5.0''\<rparr>\<rparr>]"
    by simp
  have p: "askList [] [Patch, Minor, Major] (answers [] [] [False] [2] [])
           = Done Major (answers [] [] [False] [] [])"
    by code_simp
  have l: "ltSample ''0.5.0'' ''1.0.0'' = Some True"
    by code_simp
  have c: "askConfirm [] (answers [] [] [False] [] []) = Done False (answers [] [] [] [] [])"
    by code_simp
  from single_package_raises_iff[OF n, of ltSample "[]" "answers [] [] [False] [2] []" "ExitError 1" "[]" "[]"]
    p l c
  show ?thesis by simp
qed

text \<open>
  Claim C4 as stated fails. The only package has a version that is no version; the user
  picks major, no confirmation is asked, and \<^verbatim>\<open>createChangeset\<close> throws a TypeError.
\<close>

theorem invalid_version_counterexample:
  "createChangeset ltSample []
     [\<lparr>packageJson = \<lparr>pkg_name = ''foo'', version = ''not-a-version''\<rparr>\<rparr>]
     (answers [''fix''] [] [] [2] [])
   = Throws TypeError (answers [''fix''] [] [] [] [])"
  by code_simp

subsection \<open>The serializer\<close>

text \<open>
  Claim C8. When the formatter throws on the rendered document, \<^verbatim>\<open>writeChangeset\<close>
  throws the same exception to its caller, and the file system is what it was before
  the call: no file has been created.
\<close>

theorem format_failure_writes_nothing:
  assumes "resolveConfig cwd = Inr prettierConfig"
      and "format (changesetContents changeset) prettierConfig = Inl e"
  shows "writeChangeset resolveConfig format changesetID changeset cwd files = Throws e files"
  using assms by (simp add: writeChangeset_def)

theorem format_failure_writes_nothing_witness:
  "writeChangeset (\<lambda>dir. Inr ()) (\<lambda>doc cfg. Inl (Failure ''bad markdown'')) ''brave-lions-flow''
     \<lparr>summary = ''fix'', releases = [\<lparr>name = ''a'', type = Patch\<rparr>], categoryOfChangeList = []\<rparr>
     ''/repo'' Map.empty
   = Throws (Failure ''bad markdown'') Map.empty"
  using format_failure_writes_nothing
    [where resolveConfig = "\<lambda>dir. Inr ()" and format = "\<lambda>doc cfg. Inl (Failure ''bad markdown'')"
       and cwd = "''/repo''" and prettierConfig = "()" and e = "Failure ''bad markdown''"
       and changeset = "\<lparr>summary = ''fix'', releases = [\<lparr>name = ''a'', type = Patch\<rparr>],
                          categoryOfChangeList = []\<rparr>"
       and changesetID = "''brave-lions-flow''" and files = Map.empty]
  by simp

lemma askDescriptions_untyped:
  "askDescriptions chosen acc u = Done cats u' \<Longrightarrow> \<forall>c \<in> set acc. ctype c = None \<Longrightarrow>
     \<forall>c \<in> set cats. ctype c = None"
proof (induction chosen arbitrary: acc u)
  case Nil
  then show ?case by simp
next
  case (Cons cat rest)
  from Cons.prems(1) obtain d u1 where
    "askDescriptions rest (acc @ [\<lparr>description = d, category = cat, ctype = None\<rparr>]) u1 = Done cats u'"
    by (auto dest!: andThen_Done)
  from Cons.IH[OF this] Cons.prems(2) show ?case by simp
qed

lemma askDescriptions_categories:
  "askDescriptions chosen acc u = Done cats u' \<Longrightarrow> map category cats = map category acc @ chosen"
proof (induction chosen arbitrary: acc u)
  case Nil
  then show ?case by simp
next
  case (Cons cat rest)
  from Cons.prems(1) obtain d u1 where
    "askDescriptions rest (acc @ [\<lparr>description = d, category = cat, ctype = None\<rparr>]) u1 = Done cats u'"
    by (auto dest!: andThen_Done)
  from Cons.IH[OF this] show ?case by simp
qed

lemma filter_untyped:
  "\<forall>c \<in> set cats. ctype c = None \<Longrightarrow> filter (\<lambda>c. ctype c = Some b) cats = []"
  by (induction cats) auto

text \<open>
  Claim C10. The builder makes its category records in one place, the loop
  \<open>askDescriptions\<close>, and each is a description and a category with no \<^verbatim>\<open>type\<close>. So
  in a list it has built no record has a type, the filter of \<^verbatim>\<open>getChangeTypesSection\<close>
  for a bump type keeps nothing, and the section it renders holds no category line: it
  is the closing line break in \<^verbatim>\<open>index.ts\<close> and the empty text in the other version.
\<close>

theorem built_categories_match_no_bump_type:
  assumes "askDescriptions chosen acc u = Done cats u'"
      and "\<forall>c \<in> set acc. ctype c = None"
  shows "(\<forall>c \<in> set cats. ctype c = None)
       \<and> filter (\<lambda>c. ctype c = Some bumpType) cats = []
       \<and> getChangeTypesSection cats (Some bumpType) = [newline]
       \<and> getChangeTypesSection_p0 cats bumpType = []"
proof -
  have u: "\<forall>c \<in> set cats. ctype c = None"
    using askDescriptions_untyped[OF assms] .
  then show ?thesis
    by (simp add: getChangeTypesSection_def getChangeTypesSection_p0_def filter_untyped)
qed

theorem built_categories_match_no_bump_type_witness:
  "filter (\<lambda>c. ctype c = Some Major) [\<lparr>description = ''new flag'', category = added, ctype = None\<rparr>] = []
   \<and> getChangeTypesSection [\<lparr>description = ''new flag'', category = added, ctype = None\<rparr>] (Some Major)
       = [newline]
   \<and> getChangeTypesSection_p0 [\<lparr>description = ''new flag'', category = added, ctype = None\<rparr>] Major = []"
proof -
  have h: "askDescriptions [added] [] (answers [''new flag''] [] [] [] [])
           = Done [\<lparr>description = ''new flag'', category = added, ctype = None\<rparr>] (answers [] [] [] [] [])"
    by code_simp
  have e: "\<forall>c \<in> set ([] :: CategoryOfChange list). ctype c = None"
    by simp
  from built_categories_match_no_bump_type[OF h e, of Major] show ?thesis
    by simp
qed

lemma groupByBumpType_fold:
  "fold (\<lambda>rel (major, minor, patch, none).
             if type rel = Major then (major @ [rel], minor, patch, none)
             else if type rel = Minor then (major, minor @ [rel], patch, none)
             else if type rel = Patch then (major, minor, patch @ [rel], none)
             else (major @ [rel], minor, patch, none))
       rels (a, b, c, d)
   = (a @ filter (\<lambda>r. type r = Major \<or> type r = NoneBump) rels,
      b @ filter (\<lambda>r. type r = Minor) rels,
      c @ filter (\<lambda>r. type r = Patch) rels, d)"
proof (induction rels arbitrary: a b c d)
  case Nil
  then show ?case by simp
next
  case (Cons r rels)
  show ?case by (cases "type r") (simp_all add: Cons.IH)
qed

lemma groupByBumpType_eq:
  "groupByBumpType rels =
     (filter (\<lambda>r. type r = Major \<or> type r = NoneBump) rels,
      filter (\<lambda>r. type r = Minor) rels,
      filter (\<lambda>r. type r = Patch) rels, [])"
  by (simp add: groupByBumpType_def groupByBumpType_fold)

lemma groupedEntries_eq:
  "groupedEntries rels =
     (if \<exists>r \<in> set rels. type r = Major \<or> type r = NoneBump
      then [(Major, filter (\<lambda>r. type r = Major \<or> type r = NoneBump) rels)] else [])
     @ (if \<exists>r \<in> set rels. type r = Minor then [(Minor, filter (\<lambda>r. type r = Minor) rels)] else [])
     @ (if \<exists>r \<in> set rels. type r = Patch then [(Patch, filter (\<lambda>r. type r = Patch) rels)] else [])"
  by (auto simp: groupedEntries_def groupByBumpType_eq entries_def filter_empty_conv)


text \<open>
  Claim C6. In the version of the serializer that groups by severity, a document with a
  category list that is not empty is made of one block per entry of \<open>groupedEntries\<close>,
  in their order: the header \<^verbatim>\<open>---\<close>, the quoted lines of the entry's releases, \<^verbatim>\<open>---\<close>,
  and then the category lines of that severity. A release is placed in the major bucket
  when its type is major or is none of major, minor and patch; so the entries are, in
  this order, major when some release is so placed, minor when a release is minor and
  patch when a release is patch, and never none. When every release is major, minor or
  patch, a severity has a block exactly when a release has that severity.
\<close>

theorem grouped_header_blocks:
  "groupedEntries rels =
     (if \<exists>r \<in> set rels. type r = Major \<or> type r = NoneBump
      then [(Major, filter (\<lambda>r. type r = Major \<or> type r = NoneBump) rels)] else [])
     @ (if \<exists>r \<in> set rels. type r = Minor then [(Minor, filter (\<lambda>r. type r = Minor) rels)] else [])
     @ (if \<exists>r \<in> set rels. type r = Patch then [(Patch, filter (\<lambda>r. type r = Patch) rels)] else [])
   \<and> NoneBump \<notin> set (map fst (groupedEntries rels))
   \<and> ((\<forall>r \<in> set rels. type r \<noteq> NoneBump) \<longrightarrow>
        (\<forall>b. b \<in> set (map fst (groupedEntries rels)) \<longleftrightarrow> (\<exists>r \<in> set rels. type r = b)))
   \<and> (cats \<noteq> [] \<longrightarrow>
        changesetContents_p0 \<lparr>summary = s, releases = rels, categoryOfChangeList = cats\<rparr>
        = join [newline]
            (map (\<lambda>(bumpType, rs).
                    ''---'' @ [newline]
                    @ join [newline]
                        (map (\<lambda>r. [dquote] @ name r @ [dquote] @ '': '' @ showVersionType (type r)) rs)
                    @ [newline] @ ''---'' @ '' '' @ [newline]
                    @ join [newline]
                        (map (\<lambda>c. ''- [ '' @ getKindTitle (category c) @ '' ] '' @ description c)
                           (filter (\<lambda>c. ctype c = Some bumpType) cats)))
               (groupedEntries rels))
          @ [newline, newline] @ s @ [newline] @ ''  '')"
proof (intro conjI)
  show "groupedEntries rels =
     (if \<exists>r \<in> set rels. type r = Major \<or> type r = NoneBump
      then [(Major, filter (\<lambda>r. type r = Major \<or> type r = NoneBump) rels)] else [])
     @ (if \<exists>r \<in> set rels. type r = Minor then [(Minor, filter (\<lambda>r. type r = Minor) rels)] else [])
     @ (if \<exists>r \<in> set rels. type r = Patch then [(Patch, filter (\<lambda>r. type r = Patch) rels)] else [])"
    by (rule groupedEntries_eq)
  show "NoneBump \<notin> set (map fst (groupedEntries rels))"
    by (auto simp: groupedEntries_eq)
  show "(\<forall>r \<in> set rels. type r \<noteq> NoneBump) \<longrightarrow>
        (\<forall>b. b \<in> set (map fst (groupedEntries rels)) \<longleftrightarrow> (\<exists>r \<in> set rels. type r = b))"
  proof (intro impI allI)
    fix b assume n: "\<forall>r \<in> set rels. type r \<noteq> NoneBump"
    then show "b \<in> set (map fst (groupedEntries rels)) \<longleftrightarrow> (\<exists>r \<in> set rels. type r = b)"
      by (cases b) (auto simp: groupedEntries_eq)
  qed
  have header: "getReleasesSection_p0 rs
      = ''---'' @ [newline]
        @ join [newline]
            (map (\<lambda>r. [dquote] @ name r @ [dquote] @ '': '' @ showVersionType (type r)) rs)
        @ [newline] @ ''---''" for rs
  proof -
    have "releaseLine = (\<lambda>r. [dquote] @ name r @ [dquote] @ '': '' @ showVersionType (type r))"
      by (rule ext) (simp add: releaseLine_def)
    then show ?thesis
      unfolding getReleasesSection_p0_def by simp
  qed
  have lines: "getChangeTypesSection_p0 cats bumpType
      = join [newline]
          (map (\<lambda>c. ''- [ '' @ getKindTitle (category c) @ '' ] '' @ description c)
             (filter (\<lambda>c. ctype c = Some bumpType) cats))" for bumpType
  proof -
    have "categoryLine
          = (\<lambda>c. ''- [ '' @ getKindTitle (category c) @ '' ] '' @ description c)"
      by (rule ext) (simp add: categoryLine_def)
    then show ?thesis
      unfolding getChangeTypesSection_p0_def by simp
  qed
  show "cats \<noteq> [] \<longrightarrow>
        changesetContents_p0 \<lparr>summary = s, releases = rels, categoryOfChangeList = cats\<rparr>
        = join [newline]
            (map (\<lambda>(bumpType, rs).
                    ''---'' @ [newline]
                    @ join [newline]
                        (map (\<lambda>r. [dquote] @ name r @ [dquote] @ '': '' @ showVersionType (type r)) rs)
                    @ [newline] @ ''---'' @ '' '' @ [newline]
                    @ join [newline]
                        (map (\<lambda>c. ''- [ '' @ getKindTitle (category c) @ '' ] '' @ description c)
                           (filter (\<lambda>c. ctype c = Some bumpType) cats)))
               (groupedEntries rels))
          @ [newline, newline] @ s @ [newline] @ ''  ''"
    by (simp add: changesetContents_p0_def releasesGroupedByBumpTypes_p0_def header lines)
qed

text \<open>
  The document of three releases, one major between two patch, with one category: the
  major block comes first and the two patch releases share the second block.
\<close>

theorem grouped_header_blocks_witness:
  "changesetContents_p0
     \<lparr>summary = ''fix'',
      releases = [\<lparr>name = ''a'', type = Patch\<rparr>, \<lparr>name = ''b'', type = Major\<rparr>,
                  \<lparr>name = ''c'', type = Patch\<rparr>],
      categoryOfChangeList = [\<lparr>description = ''new flag'', category = added, ctype = None\<rparr>]\<rparr>
   = ''---'' @ [newline, dquote] @ ''b'' @ [dquote] @ '': major'' @ [newline] @ ''--- '' @ [newline]
     @ [newline]
     @ ''---'' @ [newline, dquote] @ ''a'' @ [dquote] @ '': patch'' @ [newline, dquote] @ ''c''
     @ [dquote] @ '': patch'' @ [newline] @ ''--- '' @ [newline]
     @ [newline, newline] @ ''fix'' @ [newline] @ ''  ''
   \<and> map fst (groupedEntries [\<lparr>name = ''a'', type = Patch\<rparr>, \<lparr>name = ''b'', type = Major\<rparr>,
                              \<lparr>name = ''c'', type = Patch\<rparr>])
     = [Major, Patch]"
  using grouped_header_blocks[of "[\<lparr>name = ''a'', type = Patch\<rparr>, \<lparr>name = ''b'', type = Major\<rparr>,
                            \<lparr>name = ''c'', type = Patch\<rparr>]"
              "[\<lparr>description = ''new flag'', category = added, ctype = None\<rparr>]" "''fix''"]
  by simp

subsection \<open>The successive elimination\<close>

lemma set_fold_newSet:
  "set (fold (\<lambda>x s. if x \<in> set s then s else s @ [x]) xs acc) = set acc \<union> set xs"
  by (induction xs arbitrary: acc) auto

lemma set_newSet: "set (newSet xs) = set xs"
  by (simp add: newSet_def set_fold_newSet)

lemma askCheckboxPlus_Done:
  "askCheckboxPlus q keys u = Done ans u' \<Longrightarrow> set ans \<subseteq> set keys"
  by (auto simp: askCheckboxPlus_def split: list.splits)

lemma those_map_Some:
  "those (map f xs) = Some ys \<Longrightarrow> (\<forall>x \<in> set xs. f x \<noteq> None) \<and> ys = map (\<lambda>x. the (f x)) xs"
  by (induction xs arbitrary: ys) (auto split: option.splits)

lemma pkgChoices_Some:
  "pkgChoices byName names = Some choices \<Longrightarrow> map fst choices = names \<and> set names \<subseteq> dom byName"
proof -
  assume a: "pkgChoices byName names = Some choices"
  note t = those_map_Some[OF a[unfolded pkgChoices_def]]
  from t have 1: "set names \<subseteq> dom byName" by auto
  from t have "\<forall>x \<in> set names. fst (the (map_option (\<lambda>pj. (x, formatPkgNameAndVersion x (version pj))) (byName x))) = x"
    by auto
  then have "map (\<lambda>x. fst (the (map_option (\<lambda>pj. (x, formatPkgNameAndVersion x (version pj))) (byName x)))) names = names"
    by (intro map_idI) simp
  with t have "map fst choices = names" by (simp add: comp_def)
  with 1 show ?thesis by simp
qed

lemma askMajor_Done:
  "askMajor byName cand u = Done sel u1 \<Longrightarrow> set sel \<subseteq> set cand \<and> set cand \<subseteq> dom byName"
  by (auto simp: askMajor_def groupKeys_def split: option.splits
      dest!: andThen_Done askCheckboxPlus_Done pkgChoices_Some)

lemma majorLoop_Done:
  "majorLoop lt byName sel (left, rels) u = Done (left', rels') u' \<Longrightarrow>
     left' = filter (\<lambda>x. x \<notin> set (map fst (filter snd (majorDecisions lt byName sel u)))) left
     \<and> rels' = rels @ map (\<lambda>p. \<lparr>name = p, type = Major\<rparr>)
                       (map fst (filter snd (majorDecisions lt byName sel u)))
     \<and> map fst (majorDecisions lt byName sel u) = sel"
proof (induction sel arbitrary: left rels u)
  case Nil
  then show ?case by simp
next
  case (Cons p rest)
  from Cons.prems obtain ok u1 where
    c: "confirmMajorRelease lt (byName p) u = Done ok u1" and
    r: "(if ok then majorLoop lt byName rest
              (removeAll p left, rels @ [\<lparr>name = p, type = Major\<rparr>]) u1
         else majorLoop lt byName rest (left, rels) u1) = Done (left', rels') u'"
    by (auto dest!: andThen_Done)
  show ?case
  proof (cases ok)
    case True
    with r have "majorLoop lt byName rest (removeAll p left, rels @ [\<lparr>name = p, type = Major\<rparr>]) u1
                 = Done (left', rels') u'" by simp
    from Cons.IH[OF this] c True show ?thesis
      by (auto simp: removeAll_filter_not_eq intro: filter_cong)
  next
    case False
    with r have "majorLoop lt byName rest (left, rels) u1 = Done (left', rels') u'" by simp
    from Cons.IH[OF this] c False show ?thesis by simp
  qed
qed

lemma minorLoop_eq:
  "minorLoop sel (left, rels) =
     (filter (\<lambda>x. x \<notin> set sel) left, rels @ map (\<lambda>p. \<lparr>name = p, type = Minor\<rparr>) sel)"
  by (induction sel arbitrary: left rels) (auto simp: removeAll_filter_not_eq intro: filter_cong)

lemma askMinor_Done:
  "askMinor byName left u = Done sel u' \<Longrightarrow> set sel \<subseteq> set left"
  by (auto simp: askMinor_def groupKeys_def split: option.splits
      dest!: andThen_Done askCheckboxPlus_Done pkgChoices_Some)

lemma minorRound_Done:
  "minorRound byName (left, rels) u = Done (left', rels') u' \<Longrightarrow>
     \<exists>sel. set sel \<subseteq> set left
          \<and> left' = filter (\<lambda>x. x \<notin> set sel) left
          \<and> rels' = rels @ map (\<lambda>p. \<lparr>name = p, type = Minor\<rparr>) sel
          \<and> (left \<noteq> [] \<longrightarrow> askMinor byName left u = Done sel u')"
proof (cases "left = []")
  case True
  assume "minorRound byName (left, rels) u = Done (left', rels') u'"
  with True have "left' = [] \<and> rels' = rels" by (simp add: minorRound_def)
  with True show ?thesis by (intro exI[of _ "[]"]) simp
next
  case False
  assume a: "minorRound byName (left, rels) u = Done (left', rels') u'"
  with False obtain sel where
    an: "askMinor byName left u = Done sel u'" and
    re: "minorLoop sel (left, rels) = (left', rels')"
    by (auto simp: minorRound_def dest!: andThen_Done)
  from askMinor_Done[OF an] have "set sel \<subseteq> set left" .
  with re an show ?thesis by (intro exI[of _ sel]) (simp add: minorLoop_eq)
qed

lemma patchRound_Done:
  "patchRound byName (left, rels) u = Done out u' \<Longrightarrow>
     out = rels @ map (\<lambda>p. \<lparr>name = p, type = Patch\<rparr>) left"
  by (auto simp: patchRound_def split: if_splits option.splits)

lemma resolveReleases_shape:
  assumes "resolveReleases lt byName cand u = Done rels u'"
  shows "\<exists>sel u1 acc left1 u2 minorSel.
           askMajor byName cand u = Done sel u1
         \<and> acc = map fst (filter snd (majorDecisions lt byName sel u1))
         \<and> left1 = filter (\<lambda>x. x \<notin> set acc) (newSet cand)
         \<and> majorLoop lt byName sel (newSet cand, []) u1
             = Done (left1, map (\<lambda>p. \<lparr>name = p, type = Major\<rparr>) acc) u2
         \<and> map fst (majorDecisions lt byName sel u1) = sel
         \<and> set sel \<subseteq> set cand \<and> set cand \<subseteq> dom byName
         \<and> set minorSel \<subseteq> set left1
         \<and> rels = map (\<lambda>p. \<lparr>name = p, type = Major\<rparr>) acc
                  @ map (\<lambda>p. \<lparr>name = p, type = Minor\<rparr>) minorSel
                  @ map (\<lambda>p. \<lparr>name = p, type = Patch\<rparr>) (filter (\<lambda>x. x \<notin> set minorSel) left1)
         \<and> (left1 \<noteq> [] \<longrightarrow> (\<exists>u3. askMinor byName left1 u2 = Done minorSel u3))"
proof -
  from assms obtain sel u1 st u2 st' u3 where
    a: "askMajor byName cand u = Done sel u1" and
    b: "majorLoop lt byName sel (newSet cand, []) u1 = Done st u2" and
    c: "minorRound byName st u2 = Done st' u3" and
    d: "patchRound byName st' u3 = Done rels u'"
    by (auto simp: resolveReleases_def dest!: andThen_Done)
  obtain left1 rels1 where st: "st = (left1, rels1)" by (cases st)
  obtain left2 rels2 where st': "st' = (left2, rels2)" by (cases st')
  define acc where "acc = map fst (filter snd (majorDecisions lt byName sel u1))"
  note m = majorLoop_Done[OF b[unfolded st]]
  from m have l1: "left1 = filter (\<lambda>x. x \<notin> set acc) (newSet cand)"
    by (simp add: acc_def)
  from m have r1: "rels1 = map (\<lambda>p. \<lparr>name = p, type = Major\<rparr>) acc"
    by (simp add: acc_def)
  from m have dm: "map fst (majorDecisions lt byName sel u1) = sel"
    by simp
  from b st r1 have b': "majorLoop lt byName sel (newSet cand, []) u1
             = Done (left1, map (\<lambda>p. \<lparr>name = p, type = Major\<rparr>) acc) u2"
    by simp
  from minorRound_Done[OF c[unfolded st st']] obtain minorSel where
    ms: "set minorSel \<subseteq> set left1" and l2: "left2 = filter (\<lambda>x. x \<notin> set minorSel) left1" and
    r2: "rels2 = rels1 @ map (\<lambda>p. \<lparr>name = p, type = Minor\<rparr>) minorSel" and
    am: "left1 \<noteq> [] \<longrightarrow> (\<exists>u3. askMinor byName left1 u2 = Done minorSel u3)" by blast
  from patchRound_Done[OF d[unfolded st']] l2 r2 r1
  have rels: "rels = map (\<lambda>p. \<lparr>name = p, type = Major\<rparr>) acc
                  @ map (\<lambda>p. \<lparr>name = p, type = Minor\<rparr>) minorSel
                  @ map (\<lambda>p. \<lparr>name = p, type = Patch\<rparr>) (filter (\<lambda>x. x \<notin> set minorSel) left1)"
    by simp
  from askMajor_Done[OF a] have s1: "set sel \<subseteq> set cand" and s2: "set cand \<subseteq> dom byName"
    by simp_all
  show ?thesis
    apply (rule exI[of _ sel], rule exI[of _ u1], rule exI[of _ acc], rule exI[of _ left1],
           rule exI[of _ u2], rule exI[of _ minorSel])
    apply (intro conjI)
            apply (rule a)
           apply (rule acc_def)
          apply (rule l1)
         apply (rule b')
        apply (rule dm)
       apply (rule s1)
      apply (rule s2)
      apply (rule ms)
     apply (rule rels)
    apply (rule am)
    done
qed


lemma bumped_append: "bumped t (xs @ ys) = bumped t xs \<union> bumped t ys"
  by (simp add: bumped_def)

lemma bumped_map:
  "bumped t (map (\<lambda>p. \<lparr>name = p, type = t'\<rparr>) ps) = (if t = t' then set ps else {})"
  by (auto simp: bumped_def filter_map comp_def)

text \<open>
  Claim C2. The checkbox prompt of the model returns offered keys only, which is the
  claim's assumption. Whenever the elimination returns, the packages it bumped major,
  minor and patch are together exactly the candidates, no package is in two of the
  three groups, and no release has the severity none.
\<close>

theorem elimination_partitions_candidates:
  assumes "resolveReleases lt byName packagesToRelease u = Done rels u'"
  shows "bumped Major rels \<union> bumped Minor rels \<union> bumped Patch rels = set packagesToRelease
       \<and> bumped Major rels \<inter> bumped Minor rels = {}
       \<and> bumped Major rels \<inter> bumped Patch rels = {}
       \<and> bumped Minor rels \<inter> bumped Patch rels = {}
       \<and> bumped NoneBump rels = {}"
proof -
  from resolveReleases_shape[OF assms] obtain sel u1 acc left1 u2 minorSel where
    acc: "acc = map fst (filter snd (majorDecisions lt byName sel u1))" and
    l1: "left1 = filter (\<lambda>x. x \<notin> set acc) (newSet packagesToRelease)" and
    dm: "map fst (majorDecisions lt byName sel u1) = sel" and
    s1: "set sel \<subseteq> set packagesToRelease" and
    ms: "set minorSel \<subseteq> set left1" and
    rels: "rels = map (\<lambda>p. \<lparr>name = p, type = Major\<rparr>) acc
                  @ map (\<lambda>p. \<lparr>name = p, type = Minor\<rparr>) minorSel
                  @ map (\<lambda>p. \<lparr>name = p, type = Patch\<rparr>) (filter (\<lambda>x. x \<notin> set minorSel) left1)"
    by blast
  have "set acc \<subseteq> set (map fst (majorDecisions lt byName sel u1))"
    unfolding acc by auto
  with dm s1 have a1: "set acc \<subseteq> set packagesToRelease" by simp
  have M: "bumped Major rels = set acc" and Mi: "bumped Minor rels = set minorSel"
    and P: "bumped Patch rels = set (filter (\<lambda>x. x \<notin> set minorSel) left1)"
    and N: "bumped NoneBump rels = {}"
    by (simp_all add: rels bumped_append bumped_map)
  from l1 have L: "set left1 = set packagesToRelease - set acc"
    by (auto simp: set_newSet)
  from a1 ms L show ?thesis unfolding M Mi P N by auto
qed

theorem elimination_partitions_candidates_witness:
  "bumped Major [\<lparr>name = ''b'', type = Major\<rparr>, \<lparr>name = ''a'', type = Minor\<rparr>, \<lparr>name = ''c'', type = Patch\<rparr>]
     \<union> bumped Minor [\<lparr>name = ''b'', type = Major\<rparr>, \<lparr>name = ''a'', type = Minor\<rparr>, \<lparr>name = ''c'', type = Patch\<rparr>]
     \<union> bumped Patch [\<lparr>name = ''b'', type = Major\<rparr>, \<lparr>name = ''a'', type = Minor\<rparr>, \<lparr>name = ''c'', type = Patch\<rparr>]
   = set [''a'', ''b'', ''c'']"
proof -
  have h: "resolveReleases ltSample (pkgJsonsByName workspaceSample) [''a'', ''b'', ''c'']
             (answers [] [] [False] [] [[''a'', ''b''], [''a'']])
           = Done [\<lparr>name = ''b'', type = Major\<rparr>, \<lparr>name = ''a'', type = Minor\<rparr>,
                   \<lparr>name = ''c'', type = Patch\<rparr>]
               (answers [] [] [] [] [])"
    by code_simp
  from elimination_partitions_candidates[OF h] show ?thesis
    by simp
qed

text \<open>
  Claim C5. Take a package that the major loop asked about and that was never accepted
  there, so its first major release was declined. After the loop it is still in the
  working set, so the minor menu is shown; in the releases it is not bumped major; it is
  bumped minor exactly when it is among the packages taken from the minor menu, and
  patch exactly when it is not.
\<close>

theorem declined_major_falls_through:
  assumes "resolveReleases lt byName packagesToRelease u = Done rels u'"
      and "askMajor byName packagesToRelease u = Done pkgsThatShouldBeMajorBumped u1"
      and "(p, False) \<in> set (majorDecisions lt byName pkgsThatShouldBeMajorBumped u1)"
      and "(p, True) \<notin> set (majorDecisions lt byName pkgsThatShouldBeMajorBumped u1)"
  shows "p \<notin> bumped Major rels
       \<and> (p \<in> bumped Minor rels \<or> p \<in> bumped Patch rels)
       \<and> \<not> (p \<in> bumped Minor rels \<and> p \<in> bumped Patch rels)
       \<and> (\<exists>left rels1 u2 pkgsThatShouldBeMinorBumped u3.
             majorLoop lt byName pkgsThatShouldBeMajorBumped (newSet packagesToRelease, []) u1
               = Done (left, rels1) u2
             \<and> p \<in> set left
             \<and> askMinor byName left u2 = Done pkgsThatShouldBeMinorBumped u3
             \<and> (p \<in> bumped Minor rels \<longleftrightarrow> p \<in> set pkgsThatShouldBeMinorBumped)
             \<and> (p \<in> bumped Patch rels \<longleftrightarrow> p \<notin> set pkgsThatShouldBeMinorBumped))"
proof -
  from resolveReleases_shape[OF assms(1)] assms(2) obtain acc left1 u2 minorSel where
    acc: "acc = map fst (filter snd (majorDecisions lt byName pkgsThatShouldBeMajorBumped u1))" and
    l1: "left1 = filter (\<lambda>x. x \<notin> set acc) (newSet packagesToRelease)" and
    ml: "majorLoop lt byName pkgsThatShouldBeMajorBumped (newSet packagesToRelease, []) u1
             = Done (left1, map (\<lambda>p. \<lparr>name = p, type = Major\<rparr>) acc) u2" and
    dm: "map fst (majorDecisions lt byName pkgsThatShouldBeMajorBumped u1) = pkgsThatShouldBeMajorBumped" and
    s1: "set pkgsThatShouldBeMajorBumped \<subseteq> set packagesToRelease" and
    ms: "set minorSel \<subseteq> set left1" and
    rels: "rels = map (\<lambda>p. \<lparr>name = p, type = Major\<rparr>) acc
                  @ map (\<lambda>p. \<lparr>name = p, type = Minor\<rparr>) minorSel
                  @ map (\<lambda>p. \<lparr>name = p, type = Patch\<rparr>) (filter (\<lambda>x. x \<notin> set minorSel) left1)" and
    am: "left1 \<noteq> [] \<longrightarrow> (\<exists>u3. askMinor byName left1 u2 = Done minorSel u3)"
    by auto
  have M: "bumped Major rels = set acc" and Mi: "bumped Minor rels = set minorSel"
    and P: "bumped Patch rels = set (filter (\<lambda>x. x \<notin> set minorSel) left1)"
    by (simp_all add: rels bumped_append bumped_map)
  from assms(4) have na: "p \<notin> set acc"
    unfolding acc by (auto simp: image_iff)
  from assms(3) have "p \<in> set (map fst (majorDecisions lt byName pkgsThatShouldBeMajorBumped u1))"
    by force
  with dm s1 have "p \<in> set packagesToRelease" by auto
  with na l1 have pl: "p \<in> set left1" by (simp add: set_newSet)
  then have "left1 \<noteq> []" by auto
  with am obtain u3 where a3: "askMinor byName left1 u2 = Done minorSel u3" by blast
  have tail: "\<exists>left rels1 u2 pkgsThatShouldBeMinorBumped u3.
             majorLoop lt byName pkgsThatShouldBeMajorBumped (newSet packagesToRelease, []) u1
               = Done (left, rels1) u2
             \<and> p \<in> set left
             \<and> askMinor byName left u2 = Done pkgsThatShouldBeMinorBumped u3
             \<and> (p \<in> bumped Minor rels \<longleftrightarrow> p \<in> set pkgsThatShouldBeMinorBumped)
             \<and> (p \<in> bumped Patch rels \<longleftrightarrow> p \<notin> set pkgsThatShouldBeMinorBumped)"
    apply (rule exI[of _ left1], rule exI[of _ "map (\<lambda>p. \<lparr>name = p, type = Major\<rparr>) acc"],
           rule exI[of _ u2], rule exI[of _ minorSel], rule exI[of _ u3])
    using ml pl a3 unfolding Mi P by simp
  from na pl have "p \<notin> bumped Major rels
       \<and> (p \<in> bumped Minor rels \<or> p \<in> bumped Patch rels)
       \<and> \<not> (p \<in> bumped Minor rels \<and> p \<in> bumped Patch rels)"
    unfolding M Mi P by auto
  with tail show ?thesis by blast
qed

text \<open>
  Two sessions over the sample workspace. In both, \<^verbatim>\<open>a\<close> and \<^verbatim>\<open>b\<close> are ticked for major
  and the first major release of \<^verbatim>\<open>a\<close> is declined. In the first \<^verbatim>\<open>a\<close> is ticked in
  the minor menu and comes out minor; in the second nothing is ticked there and it comes
  out patch.
\<close>

theorem declined_major_falls_through_witness:
  "(\<exists>rels u'. resolveReleases ltSample (pkgJsonsByName workspaceSample) [''a'', ''b'', ''c'']
                 (answers [] [] [False] [] [[''a'', ''b''], [''a'']]) = Done rels u'
              \<and> ''a'' \<notin> bumped Major rels \<and> ''a'' \<in> bumped Minor rels
              \<and> ''a'' \<notin> bumped Patch rels)
   \<and> (\<exists>rels u'. resolveReleases ltSample (pkgJsonsByName workspaceSample) [''a'', ''b'', ''c'']
                 (answers [] [] [False] [] [[''a'', ''b''], []]) = Done rels u'
              \<and> ''a'' \<notin> bumped Major rels \<and> ''a'' \<in> bumped Patch rels
              \<and> ''a'' \<notin> bumped Minor rels)"
proof -
  have ml: "majorLoop ltSample (pkgJsonsByName workspaceSample) [''a'', ''b'']
              (newSet [''a'', ''b'', ''c''], []) (answers [] [] [False] [] t)
            = Done ([''a'', ''c''], [\<lparr>name = ''b'', type = Major\<rparr>]) (answers [] [] [] [] t)" for t
    by (simp add: ltSample_def numeric_def pkgJsonsByName_def workspaceSample_def answers_def
        confirmMajorRelease_def askConfirm_def newSet_def)
  have d: "majorDecisions ltSample (pkgJsonsByName workspaceSample) [''a'', ''b'']
             (answers [] [] [False] [] t)
           = [(''a'', False), (''b'', True)]" for t
    by (simp add: ltSample_def numeric_def pkgJsonsByName_def workspaceSample_def answers_def
        confirmMajorRelease_def askConfirm_def)
  have d1: "(''a'', False) \<in> set (majorDecisions ltSample (pkgJsonsByName workspaceSample)
              [''a'', ''b''] (answers [] [] [False] [] t))" for t
    unfolding d by simp
  have d2: "(''a'', True) \<notin> set (majorDecisions ltSample (pkgJsonsByName workspaceSample)
              [''a'', ''b''] (answers [] [] [False] [] t))" for t
    unfolding d by simp
  have h1: "resolveReleases ltSample (pkgJsonsByName workspaceSample) [''a'', ''b'', ''c'']
             (answers [] [] [False] [] [[''a'', ''b''], [''a'']])
           = Done [\<lparr>name = ''b'', type = Major\<rparr>, \<lparr>name = ''a'', type = Minor\<rparr>,
                   \<lparr>name = ''c'', type = Patch\<rparr>]
               (answers [] [] [] [] [])"
    by code_simp
  have m1: "askMajor (pkgJsonsByName workspaceSample) [''a'', ''b'', ''c'']
             (answers [] [] [False] [] [[''a'', ''b''], [''a'']])
           = Done [''a'', ''b''] (answers [] [] [False] [] [[''a'']])"
    by code_simp
  have n1: "askMinor (pkgJsonsByName workspaceSample) [''a'', ''c''] (answers [] [] [] [] [[''a'']])
            = Done [''a''] (answers [] [] [] [] [])"
    by code_simp
  have h2: "resolveReleases ltSample (pkgJsonsByName workspaceSample) [''a'', ''b'', ''c'']
             (answers [] [] [False] [] [[''a'', ''b''], []])
           = Done [\<lparr>name = ''b'', type = Major\<rparr>, \<lparr>name = ''a'', type = Patch\<rparr>,
                   \<lparr>name = ''c'', type = Patch\<rparr>]
               (answers [] [] [] [] [])"
    by code_simp
  have m2: "askMajor (pkgJsonsByName workspaceSample) [''a'', ''b'', ''c'']
             (answers [] [] [False] [] [[''a'', ''b''], []])
           = Done [''a'', ''b''] (answers [] [] [False] [] [[]])"
    by code_simp
  have n2: "askMinor (pkgJsonsByName workspaceSample) [''a'', ''c''] (answers [] [] [] [] [[]])
            = Done [] (answers [] [] [] [] [])"
    by code_simp
  from declined_major_falls_through[OF h1 m1 d1 d2] ml[of "[[''a'']]"] n1
  have one: "''a'' \<notin> bumped Major [\<lparr>name = ''b'', type = Major\<rparr>, \<lparr>name = ''a'', type = Minor\<rparr>,
                                     \<lparr>name = ''c'', type = Patch\<rparr>]
           \<and> ''a'' \<in> bumped Minor [\<lparr>name = ''b'', type = Major\<rparr>, \<lparr>name = ''a'', type = Minor\<rparr>,
                                     \<lparr>name = ''c'', type = Patch\<rparr>]
           \<and> ''a'' \<notin> bumped Patch [\<lparr>name = ''b'', type = Major\<rparr>, \<lparr>name = ''a'', type = Minor\<rparr>,
                                     \<lparr>name = ''c'', type = Patch\<rparr>]"
    by auto
  from declined_major_falls_through[OF h2 m2 d1 d2] ml[of "[[]]"] n2
  have two: "''a'' \<notin> bumped Major [\<lparr>name = ''b'', type = Major\<rparr>, \<lparr>name = ''a'', type = Patch\<rparr>,
                                     \<lparr>name = ''c'', type = Patch\<rparr>]
           \<and> ''a'' \<in> bumped Patch [\<lparr>name = ''b'', type = Major\<rparr>, \<lparr>name = ''a'', type = Patch\<rparr>,
                                     \<lparr>name = ''c'', type = Patch\<rparr>]
           \<and> ''a'' \<notin> bumped Minor [\<lparr>name = ''b'', type = Major\<rparr>, \<lparr>name = ''a'', type = Patch\<rparr>,
                                     \<lparr>name = ''c'', type = Patch\<rparr>]"
    by auto
  from h1 one h2 two show ?thesis by blast
qed

subsection \<open>What the builder returns\<close>

lemma perReleaseLoop_Done:
  "perReleaseLoop rels chosen acc u = Done cl u' \<Longrightarrow>
     \<exists>new. cl = acc @ new \<and> map releases new = map (\<lambda>r. [r]) rels
          \<and> (\<forall>c \<in> set new. summary c = [] \<and> confirmed c
                \<and> map category (categoryOfChangeList c) = chosen
                \<and> (\<forall>k \<in> set (categoryOfChangeList c). ctype k = None))"
proof (induction rels arbitrary: acc u)
  case Nil
  then show ?case by simp
next
  case (Cons r rest)
  from Cons.prems obtain cats u1 where
    d: "askDescriptions chosen [] u = Done cats u1" and
    l: "perReleaseLoop rest chosen
          (acc @ [\<lparr>summary = [], releases = [r], categoryOfChangeList = cats, confirmed = True\<rparr>]) u1
        = Done cl u'"
    by (auto dest!: andThen_Done)
  from Cons.IH[OF l] obtain new where
    n: "cl = (acc @ [\<lparr>summary = [], releases = [r], categoryOfChangeList = cats, confirmed = True\<rparr>]) @ new"
       "map releases new = map (\<lambda>r. [r]) rest"
       "\<forall>c \<in> set new. summary c = [] \<and> confirmed c
                \<and> map category (categoryOfChangeList c) = chosen
                \<and> (\<forall>k \<in> set (categoryOfChangeList c). ctype k = None)"
    by blast
  from askDescriptions_categories[OF d] have c1: "map category cats = chosen" by simp
  from askDescriptions_untyped[OF d] have c2: "\<forall>k \<in> set cats. ctype k = None" by simp
  show ?case
    apply (rule exI[of _ "\<lparr>summary = [], releases = [r], categoryOfChangeList = cats, confirmed = True\<rparr> # new"])
    using n c1 c2 by simp
qed

lemma multiPackage_Done:
  assumes "multiPackage lt changedPackages allPackages u = Done changesets u'"
  shows "\<exists>cand u1 chosen u2 rels u3.
           getPackagesToRelease changedPackages allPackages u = Done cand u1
         \<and> askCheckboxPlus whatKindQuestion
             allCategoriesOfChange u1 = Done chosen u2
         \<and> resolveReleases lt (pkgJsonsByName allPackages) cand u2 = Done rels u3
         \<and> ((chosen = [] \<and> finish False rels [] u3 = Done changesets u')
            \<or> (chosen \<noteq> [] \<and> (\<exists>u4 cats u5.
                  askConfirm reuseQuestion u3
                    = Done True u4
                  \<and> sameMessageLoop (newSet (map type rels)) chosen [] u4 = Done cats u5
                  \<and> finish True rels [] u5 = Done changesets u'))
            \<or> (chosen \<noteq> [] \<and> (\<exists>u4 cl u5.
                  askConfirm reuseQuestion u3
                    = Done False u4
                  \<and> perReleaseLoop rels chosen [] u4 = Done cl u5
                  \<and> finish True rels cl u5 = Done changesets u')))"
proof -
  from assms obtain cand u1 chosen u2 rels u3 where
    a: "getPackagesToRelease changedPackages allPackages u = Done cand u1" and
    b: "askCheckboxPlus whatKindQuestion
             allCategoriesOfChange u1 = Done chosen u2" and
    c: "resolveReleases lt (pkgJsonsByName allPackages) cand u2 = Done rels u3" and
    d: "(if length chosen > 0
       then
         andThen (askConfirm reuseQuestion u3) (\<lambda>isSameMessageForAllPkgs u4.
           if isSameMessageForAllPkgs
           then andThen (sameMessageLoop (newSet (map type rels)) chosen [] u4)
                  (\<lambda>categoryOfChangeList u5. finish True rels [] u5)
           else andThen (perReleaseLoop rels chosen [] u4)
                  (\<lambda>changesetList u5. finish True rels changesetList u5))
       else finish False rels [] u3) = Done changesets u'"
    unfolding multiPackage_def by (blast dest!: andThen_Done)
  show ?thesis
  proof (cases "chosen = []")
    case True
    with a b c d show ?thesis by auto
  next
    case False
    with d obtain same u4 where
      e: "askConfirm reuseQuestion u3
            = Done same u4" and
      f: "(if same
           then andThen (sameMessageLoop (newSet (map type rels)) chosen [] u4)
                  (\<lambda>categoryOfChangeList u5. finish True rels [] u5)
           else andThen (perReleaseLoop rels chosen [] u4)
                  (\<lambda>changesetList u5. finish True rels changesetList u5)) = Done changesets u'"
      by (auto dest!: andThen_Done)
    show ?thesis
    proof (cases same)
      case True
      from f True obtain cats u5 where
        "sameMessageLoop (newSet (map type rels)) chosen [] u4 = Done cats u5"
        "finish True rels [] u5 = Done changesets u'"
        by (auto dest!: andThen_Done)
      moreover from e True have "askConfirm reuseQuestion u3
            = Done True u4" by simp
      ultimately show ?thesis using a b c False by blast
    next
      case nope: False
      from f nope obtain cl u5 where
        "perReleaseLoop rels chosen [] u4 = Done cl u5"
        "finish True rels cl u5 = Done changesets u'"
        by (auto dest!: andThen_Done)
      moreover from e nope have "askConfirm reuseQuestion u3
            = Done False u4" by simp
      ultimately show ?thesis using a b c False by blast
    qed
  qed
qed

lemma dom_pkgJsonsByName:
  "dom (pkgJsonsByName allPackages) = (\<lambda>p. pkg_name (packageJson p)) ` set allPackages"
  by (auto simp: pkgJsonsByName_def dom_map_of_conv_image_fst image_iff)

lemma resolveReleases_names:
  assumes "resolveReleases lt byName cand u = Done rels u'"
  shows "name ` set rels \<subseteq> dom byName"
proof -
  from resolveReleases_shape[OF assms] obtain sel u1 acc left1 minorSel where
    acc: "acc = map fst (filter snd (majorDecisions lt byName sel u1))" and
    l1: "left1 = filter (\<lambda>x. x \<notin> set acc) (newSet cand)" and
    dm: "map fst (majorDecisions lt byName sel u1) = sel" and
    s1: "set sel \<subseteq> set cand" and s2: "set cand \<subseteq> dom byName" and
    ms: "set minorSel \<subseteq> set left1" and
    rels: "rels = map (\<lambda>p. \<lparr>name = p, type = Major\<rparr>) acc
                  @ map (\<lambda>p. \<lparr>name = p, type = Minor\<rparr>) minorSel
                  @ map (\<lambda>p. \<lparr>name = p, type = Patch\<rparr>) (filter (\<lambda>x. x \<notin> set minorSel) left1)"
    by blast
  have "set acc \<subseteq> set (map fst (majorDecisions lt byName sel u1))"
    unfolding acc by auto
  with dm s1 have a1: "set acc \<subseteq> set cand" by simp
  from l1 have L: "set left1 \<subseteq> set cand" by (auto simp: set_newSet)
  have "name ` set rels = set acc \<union> set minorSel \<union> set (filter (\<lambda>x. x \<notin> set minorSel) left1)"
    unfolding rels by (simp add: image_Un image_image Un_assoc)
  with a1 ms L s2 show ?thesis by auto
qed

text \<open>
  Claim C3. Every changeset that \<^verbatim>\<open>createChangeset\<close> returns has a summary that is not
  empty, and each of its releases names a package of \<^verbatim>\<open>allPackages\<close>. A candidate that
  is no package of the workspace makes the bump menu throw, so the statement needs no
  assumption on \<^verbatim>\<open>changedPackages\<close>.
\<close>

theorem returned_changesets_wellformed:
  assumes "createChangeset lt changedPackages allPackages u = Done changesets u'"
      and "cs \<in> set changesets"
  shows "summary cs \<noteq> []
       \<and> name ` set (releases cs) \<subseteq> (\<lambda>p. pkg_name (packageJson p)) ` set allPackages"
proof -
  have "\<exists>pending u0. setSummaries pending u0 = Done changesets u'
          \<and> (\<forall>c \<in> set pending. name ` set (releases c) \<subseteq> (\<lambda>p. pkg_name (packageJson p)) ` set allPackages)"
  proof (cases "length allPackages > 1")
    case True
    with assms(1) have m: "multiPackage lt changedPackages allPackages u = Done changesets u'"
      by (simp add: createChangeset_def)
    from multiPackage_Done[OF m] obtain cand chosen u2 rels u3 where
      c: "resolveReleases lt (pkgJsonsByName allPackages) cand u2 = Done rels u3" and
      d: "(chosen = [] \<and> finish False rels [] u3 = Done changesets u')
            \<or> (chosen \<noteq> [] \<and> (\<exists>u4 cats u5.
                  sameMessageLoop (newSet (map type rels)) chosen [] u4 = Done cats u5
                  \<and> finish True rels [] u5 = Done changesets u'))
            \<or> (chosen \<noteq> [] \<and> (\<exists>u4 cl u5.
                  perReleaseLoop rels chosen [] u4 = Done cl u5
                  \<and> finish True rels cl u5 = Done changesets u'))"
      by blast
    from resolveReleases_names[OF c]
    have n: "name ` set rels \<subseteq> (\<lambda>p. pkg_name (packageJson p)) ` set allPackages"
      by (simp add: dom_pkgJsonsByName)
    from d show ?thesis
    proof (elim disjE conjE exE)
      assume "finish False rels [] u3 = Done changesets u'"
      then show ?thesis using n
        by (intro exI[of _ "[\<lparr>summary = [], releases = rels, categoryOfChangeList = [], confirmed = False\<rparr>]"] exI[of _ u3])
           (simp add: finish_def)
    next
      fix u5 assume "finish True rels [] u5 = Done changesets u'"
      then show ?thesis
        by (intro exI[of _ "[]"] exI[of _ u5]) (simp add: finish_def)
    next
      fix u4 cl u5
      assume p: "perReleaseLoop rels chosen [] u4 = Done cl u5"
        and f: "finish True rels cl u5 = Done changesets u'"
      from perReleaseLoop_Done[OF p] have r: "map releases cl = map (\<lambda>r. [r]) rels" by auto
      have "\<forall>c \<in> set cl. name ` set (releases c) \<subseteq> (\<lambda>p. pkg_name (packageJson p)) ` set allPackages"
      proof
        fix c assume "c \<in> set cl"
        then have "releases c \<in> set (map releases cl)" by simp
        with r obtain x where "x \<in> set rels" "releases c = [x]" by auto
        with n show "name ` set (releases c) \<subseteq> (\<lambda>p. pkg_name (packageJson p)) ` set allPackages"
          by auto
      qed
      with f show ?thesis
        by (intro exI[of _ cl] exI[of _ u5]) (simp add: finish_def)
    qed
  next
    case False
    with assms(1) have s: "singlePackage lt allPackages u = Done changesets u'"
      by (simp add: createChangeset_def)
    then obtain pkg others where ap: "allPackages = pkg # others"
      by (cases allPackages) (auto simp: singlePackage_def)
    from s ap obtain ty u3 where
      "finish False [\<lparr>name = pkg_name (packageJson pkg), type = ty\<rparr>] [] u3 = Done changesets u'"
      by (auto simp: singlePackage_def dest!: andThen_Done)
    then show ?thesis using ap
      by (intro exI[of _ "[\<lparr>summary = [], releases = [\<lparr>name = pkg_name (packageJson pkg), type = ty\<rparr>],
                            categoryOfChangeList = [], confirmed = False\<rparr>]"] exI[of _ u3])
         (simp add: finish_def)
  qed
  then obtain pending u0 where
    ss: "setSummaries pending u0 = Done changesets u'" and
    pn: "\<forall>c \<in> set pending. name ` set (releases c) \<subseteq> (\<lambda>p. pkg_name (packageJson p)) ` set allPackages"
    by blast
  note sd = setSummaries_Done[OF ss]
  from assms(2) have "releases cs \<in> set (map releases changesets)" by simp
  with sd have "releases cs \<in> set (map releases pending)" by simp
  then obtain c where "c \<in> set pending" "releases cs = releases c" by auto
  with pn sd assms(2) show ?thesis by auto
qed

theorem returned_changesets_wellformed_witness:
  "summary \<lparr>summary = ''from the editor'', releases = [\<lparr>name = ''b'', type = Patch\<rparr>],
            categoryOfChangeList = [\<lparr>description = ''d2'', category = added, ctype = None\<rparr>],
            confirmed = True\<rparr> \<noteq> []
   \<and> name ` set [\<lparr>name = ''b'', type = Patch\<rparr>]
       \<subseteq> (\<lambda>p. pkg_name (packageJson p)) ` set workspaceSample"
proof -
  have h: "createChangeset ltSample [''a''] workspaceSample
             (answers [''d1'', ''d2'', ''s1'', []] [Some ''from the editor''] [True, False] []
                [[''a'', ''b''], [added], [''a''], []])
           = Done [\<lparr>summary = ''s1'', releases = [\<lparr>name = ''a'', type = Major\<rparr>],
                    categoryOfChangeList = [\<lparr>description = ''d1'', category = added, ctype = None\<rparr>],
                    confirmed = False\<rparr>,
                   \<lparr>summary = ''from the editor'', releases = [\<lparr>name = ''b'', type = Patch\<rparr>],
                    categoryOfChangeList = [\<lparr>description = ''d2'', category = added, ctype = None\<rparr>],
                    confirmed = True\<rparr>]
               (answers [] [] [] [] [])"
    by code_simp
  from returned_changesets_wellformed[OF h,
      of "\<lparr>summary = ''from the editor'', releases = [\<lparr>name = ''b'', type = Patch\<rparr>],
           categoryOfChangeList = [\<lparr>description = ''d2'', category = added, ctype = None\<rparr>],
           confirmed = True\<rparr>"]
  show ?thesis by simp
qed


text \<open>
  The category lists that reach the caller are built the same way: in every changeset
  that \<^verbatim>\<open>createChangeset\<close> returns, no category record has a type.
\<close>

lemma setSummaries_categories_untyped:
  assumes "setSummaries pending u0 = Done changesets u'"
      and "\<forall>c \<in> set pending. \<forall>k \<in> set (categoryOfChangeList c). ctype k = None"
      and "cs \<in> set changesets"
  shows "\<forall>k \<in> set (categoryOfChangeList cs). ctype k = None"
proof -
  from assms(3) have "categoryOfChangeList cs \<in> set (map categoryOfChangeList changesets)"
    by simp
  with setSummaries_Done[OF assms(1)]
  have "categoryOfChangeList cs \<in> set (map categoryOfChangeList pending)"
    by simp
  then obtain c where "c \<in> set pending" "categoryOfChangeList cs = categoryOfChangeList c"
    by auto
  with assms(2) show ?thesis by simp
qed

lemma returned_categories_untyped:
  assumes "createChangeset lt changedPackages allPackages u = Done changesets u'"
      and "cs \<in> set changesets"
  shows "\<forall>k \<in> set (categoryOfChangeList cs). ctype k = None"
proof (cases "length allPackages > 1")
  case True
  with assms(1) have m: "multiPackage lt changedPackages allPackages u = Done changesets u'"
    by (simp add: createChangeset_def)
  from multiPackage_Done[OF m] obtain chosen rels u3 where
    d: "(chosen = [] \<and> finish False rels [] u3 = Done changesets u')
          \<or> (chosen \<noteq> [] \<and> (\<exists>u5. finish True rels [] u5 = Done changesets u'))
          \<or> (chosen \<noteq> [] \<and> (\<exists>u4 cl u5.
                perReleaseLoop rels chosen [] u4 = Done cl u5
                \<and> finish True rels cl u5 = Done changesets u'))"
    by blast
  from d show ?thesis
  proof (elim disjE conjE exE)
    assume "finish False rels [] u3 = Done changesets u'"
    then have "setSummaries [\<lparr>summary = [], releases = rels, categoryOfChangeList = [],
                              confirmed = False\<rparr>] u3 = Done changesets u'"
      by (simp add: finish_def)
    from setSummaries_categories_untyped[OF this _ assms(2)] show ?thesis by simp
  next
    fix u5 assume "finish True rels [] u5 = Done changesets u'"
    with assms(2) show ?thesis by (simp add: finish_def)
  next
    fix u4 cl u5
    assume p: "perReleaseLoop rels chosen [] u4 = Done cl u5"
      and f: "finish True rels cl u5 = Done changesets u'"
    from perReleaseLoop_Done[OF p]
    have "\<forall>c \<in> set cl. \<forall>k \<in> set (categoryOfChangeList c). ctype k = None" by auto
    moreover from f have "setSummaries cl u5 = Done changesets u'" by (simp add: finish_def)
    ultimately show ?thesis using setSummaries_categories_untyped assms(2) by blast
  qed
next
  case False
  with assms(1) have s: "singlePackage lt allPackages u = Done changesets u'"
    by (simp add: createChangeset_def)
  then obtain pkg others where ap: "allPackages = pkg # others"
    by (cases allPackages) (auto simp: singlePackage_def)
  from s ap obtain ty u3 where
    "finish False [\<lparr>name = pkg_name (packageJson pkg), type = ty\<rparr>] [] u3 = Done changesets u'"
    by (auto simp: singlePackage_def dest!: andThen_Done)
  then have "setSummaries [\<lparr>summary = [], releases = [\<lparr>name = pkg_name (packageJson pkg), type = ty\<rparr>],
                            categoryOfChangeList = [], confirmed = False\<rparr>] u3 = Done changesets u'"
    by (simp add: finish_def)
  from setSummaries_categories_untyped[OF this _ assms(2)] show ?thesis by simp
qed

text \<open>
  The branch that reuses one message per bump type collects its category list and then
  pushes no changeset: with more than one package, categories chosen and the reuse
  confirmed, \<^verbatim>\<open>createChangeset\<close> returns the empty list.
\<close>

lemma same_message_returns_no_changeset:
  assumes "1 < length allPackages"
      and "getPackagesToRelease changedPackages allPackages u = Done packagesToRelease u1"
      and "askCheckboxPlus whatKindQuestion allCategoriesOfChange u1 = Done chosen u2"
      and "chosen \<noteq> []"
      and "resolveReleases lt (pkgJsonsByName allPackages) packagesToRelease u2 = Done rels u3"
      and "askConfirm reuseQuestion u3 = Done True u4"
      and "sameMessageLoop (newSet (map type rels)) chosen [] u4 = Done cats u5"
  shows "createChangeset lt changedPackages allPackages u = Done [] u5"
  using assms by (simp add: createChangeset_def multiPackage_def finish_def)

text \<open>
  Claim C1 says that this branch returns exactly one changeset, holding all the releases
  and the shared category list. In this session two packages are released, the category
  Added is chosen, the reuse is confirmed and both descriptions are given; nothing is
  returned.
\<close>

theorem same_message_session_returns_nothing:
  "createChangeset ltSample [''a''] workspaceSample
     (answers [''shared one'', ''shared two''] [] [True, True] [] [[''a'', ''b''], [added], [''a''], []])
   = Done [] (answers [] [] [] [] [])"
  by code_simp




subsection \<open>Reading the header back\<close>

lemma splitOn_not_Nil: "splitOn c s \<noteq> []"
  by (induction s) (auto split: list.splits)

lemma splitOn_line:
  "c \<notin> set l \<Longrightarrow> splitOn c (l @ c # rest) = l # splitOn c rest"
  by (induction l) (auto split: list.splits)

lemma splitOn_lines:
  "\<forall>l \<in> set ls. c \<notin> set l \<Longrightarrow> ls \<noteq> [] \<Longrightarrow>
     splitOn c (join [c] ls @ c # rest) = ls @ splitOn c rest"
proof (induction ls)
  case Nil
  then show ?case by simp
next
  case (Cons x xs)
  show ?case
  proof (cases xs)
    case Nil
    with Cons.prems show ?thesis by (simp add: splitOn_line)
  next
    case (Cons y ys)
    with Cons.prems Cons.IH
    have ih: "splitOn c (join [c] xs @ c # rest) = xs @ splitOn c rest" by simp
    from Cons.prems have "c \<notin> set x" by simp
    from splitOn_line[OF this, of "join [c] xs @ c # rest"] ih Cons
    show ?thesis by simp
  qed
qed

lemma newline_showVersionType: "newline \<notin> set (showVersionType t)"
  by (cases t) simp_all

lemma parse_showVersionType: "parseVersionType (showVersionType t) = Some t"
  by (cases t) (simp_all add: parseVersionType_def)

lemma releaseLine_no_newline:
  "newline \<notin> set (name r) \<Longrightarrow> newline \<notin> set (releaseLine r)"
  by (simp add: releaseLine_def newline_showVersionType)

lemma releaseLine_not_delimiter: "releaseLine r \<noteq> ''---''" "releaseLine r \<noteq> []"
  by (simp_all add: releaseLine_def)

lemma parseReleaseLine_releaseLine:
  assumes "dquote \<notin> set (name r)"
  shows "parseReleaseLine (releaseLine r) = Some (name r, type r)"
proof -
  have d: "dropWhile (\<lambda>x. x \<noteq> dquote) (name r @ dquote # '': '' @ showVersionType (type r))
           = dquote # '': '' @ showVersionType (type r)"
    using assms by (subst dropWhile_append3) auto
  have t: "takeWhile (\<lambda>x. x \<noteq> dquote) (name r @ dquote # '': '' @ showVersionType (type r)) = name r"
    using assms by (subst takeWhile_append2) auto
  show ?thesis
    unfolding parseReleaseLine_def releaseLine_def
    using d t by (simp add: parse_showVersionType)
qed

lemma those_parse_lines:
  "\<forall>r \<in> set rs. dquote \<notin> set (name r) \<Longrightarrow>
     those (map parseReleaseLine (map releaseLine rs)) = Some (map (\<lambda>r. (name r, type r)) rs)"
  by (induction rs) (simp_all add: parseReleaseLine_releaseLine)

lemma parseHeader_section:
  assumes "\<forall>r \<in> set rs. dquote \<notin> set (name r) \<and> newline \<notin> set (name r)"
  shows "parseHeader (getReleasesSection rs @ rest) = Some (map (\<lambda>r. (name r, type r)) rs)"
proof -
  let ?ls = "map releaseLine rs"
  have nl: "\<forall>l \<in> set ?ls. newline \<notin> set l"
    using assms by (auto simp: releaseLine_no_newline)
  have doc: "getReleasesSection rs @ rest
             = ''---'' @ newline # (join [newline] ?ls @ newline # (''---'' @ newline # rest))"
    by (simp add: getReleasesSection_def)
  have body: "splitOn newline (join [newline] ?ls @ newline # (''---'' @ newline # rest))
              = (if rs = [] then [[]] else ?ls) @ ''---'' # splitOn newline rest"
  proof (cases "rs = []")
    case True
    then show ?thesis using splitOn_line[of newline "''---''" rest] by simp
  next
    case False
    then have "?ls \<noteq> []" by simp
    from splitOn_lines[OF nl this, of "''---'' @ newline # rest"] False
    show ?thesis using splitOn_line[of newline "''---''" rest] by simp
  qed
  have lines: "splitOn newline (getReleasesSection rs @ rest)
               = ''---'' # (if rs = [] then [[]] else ?ls) @ ''---'' # splitOn newline rest"
    unfolding doc using splitOn_line[of newline "''---''"] body by simp
  have tw: "takeWhile (\<lambda>l. l \<noteq> ''---'') ((if rs = [] then [[]] else ?ls) @ ''---'' # splitOn newline rest)
            = (if rs = [] then [[]] else ?ls)"
    by (subst takeWhile_append2) (auto simp: releaseLine_not_delimiter split: if_splits)
  have fl: "filter (\<lambda>l. l \<noteq> []) (if rs = [] then [[]] else ?ls) = ?ls"
    by (auto simp: filter_id_conv releaseLine_not_delimiter)
  from assms have q: "\<forall>r \<in> set rs. dquote \<notin> set (name r)" by simp
  show ?thesis
    unfolding parseHeader_def lines
    by (simp only: list.case tw fl those_parse_lines[OF q]) simp
qed

text \<open>
  Claim C7, amended. For a changeset whose release names hold neither a double quote nor
  a line break, reading the header of the rendered document gives back the pairs of name
  and severity of its releases, in their order; a name such as \<^verbatim>\<open>@scope/name\<close> is one
  of them. The document is the text handed to the formatter.
\<close>

theorem header_round_trip:
  assumes "\<forall>r \<in> set (releases changeset). dquote \<notin> set (name r) \<and> newline \<notin> set (name r)"
  shows "parseHeader (changesetContents changeset)
         = Some (map (\<lambda>r. (name r, type r)) (releases changeset))"
proof -
  have "\<exists>rest. changesetContents changeset = getReleasesSection (releases changeset) @ rest"
    by (simp add: changesetContents_def getReleasesAndChangeTypes_def)
  then obtain rest where "changesetContents changeset = getReleasesSection (releases changeset) @ rest" ..
  with parseHeader_section[OF assms, of rest] show ?thesis by simp
qed

theorem header_round_trip_witness:
  "parseHeader (changesetContents
     \<lparr>summary = ''fix'',
      releases = [\<lparr>name = ''@scope/name'', type = Minor\<rparr>, \<lparr>name = ''b'', type = Patch\<rparr>],
      categoryOfChangeList = [\<lparr>description = ''new flag'', category = added, ctype = None\<rparr>]\<rparr>)
   = Some [(''@scope/name'', Minor), (''b'', Patch)]"
  using header_round_trip[of "\<lparr>summary = ''fix'',
          releases = [\<lparr>name = ''@scope/name'', type = Minor\<rparr>, \<lparr>name = ''b'', type = Patch\<rparr>],
          categoryOfChangeList = [\<lparr>description = ''new flag'', category = added, ctype = None\<rparr>]\<rparr>"]
  by simp

text \<open>
  Claim C7 as stated fails, since a name is written between quotes as it is. The one
  release whose name holds a double quote and a line break renders to the very document
  of two other releases, and the header read back is theirs.
\<close>

theorem header_round_trip_counterexample:
  "changesetContents
     \<lparr>summary = ''fix'',
      releases = [\<lparr>name = ''x'' @ [dquote] @ '': patch'' @ [newline, dquote] @ ''y'', type = Major\<rparr>],
      categoryOfChangeList = []\<rparr>
   = changesetContents
       \<lparr>summary = ''fix'',
        releases = [\<lparr>name = ''x'', type = Patch\<rparr>, \<lparr>name = ''y'', type = Major\<rparr>],
        categoryOfChangeList = []\<rparr>
   \<and> parseHeader (changesetContents
         \<lparr>summary = ''fix'',
          releases = [\<lparr>name = ''x'' @ [dquote] @ '': patch'' @ [newline, dquote] @ ''y'', type = Major\<rparr>],
          categoryOfChangeList = []\<rparr>)
       = Some [(''x'', Patch), (''y'', Major)]"
  by code_simp

end
